theory Spec2Isabelle
  imports Main
begin

section \<open>The drag singleton (scripts.js, lines 7-41)\<close>

text \<open>
  Numbers are modelled as integers (pixel coordinates); floating-point rounding and NaN
  are outside the model.

  The drag singleton keeps four closure variables: \<^verbatim>\<open>object\<close>, \<^verbatim>\<open>x\<close>, \<^verbatim>\<open>y\<close> and
  \<^verbatim>\<open>_threshold\<close>. Its target is duck-typed: any object with a \<^verbatim>\<open>dragMove(dx, dy, e)\<close> and a
  \<^verbatim>\<open>dragEnd()\<close> method. A method acts on the rest of the page (the type \<open>'w\<close>) and either
  returns or throws; in both cases it may have changed the page before. The closure
  variables are private to the singleton, and the methods of \<^verbatim>\<open>Window\<close> do not call
  \<^verbatim>\<open>drag.start\<close>, so a method leaves them as they are.
\<close>

type_synonym js_error = string

record mouse_event =
  clientX :: int
  clientY :: int

record 'w drag_target =
  dragMove :: "int \<Rightarrow> int \<Rightarrow> mouse_event \<Rightarrow> 'w \<Rightarrow> js_error option \<times> 'w"
  dragEnd :: "'w \<Rightarrow> js_error option \<times> 'w"

text \<open>The outcome of running a piece of code: it returns, or an exception leaves it.\<close>

datatype 's completion = is_Returns: Returns 's | Throws js_error 's

text \<open>The state in which the code was left, whichever way it ended.\<close>

fun state_of :: "'s completion \<Rightarrow> 's" where
  "state_of (Returns s) = s"
| "state_of (Throws err s) = s"

text \<open>
  The calls made on the target and the lines written by \<^verbatim>\<open>console.error\<close> are recorded in
  two logs, \<open>calls\<close> and \<open>console\<close>, so that statements about which callback was invoked,
  with which arguments and how often, can be made.
\<close>

datatype call = Call_dragMove int int mouse_event | Call_dragEnd

record 'w drag_state =
  drag_object :: "'w drag_target option"
  drag_x :: int
  drag_y :: int
  drag_threshold :: int
  world :: 'w
  calls :: "call list"
  console :: "(string \<times> js_error) list"

text \<open>
  \<^verbatim>\<open>instance.start = (obj, e, threshold) => { ... }\<close>. An omitted threshold is \<open>None\<close>;
  \<^verbatim>\<open>threshold || 0\<close> turns it into 0. \<^verbatim>\<open>e.preventDefault()\<close> does not touch the state.
\<close>

definition start :: "'w drag_target \<Rightarrow> mouse_event \<Rightarrow> int option \<Rightarrow> 'w drag_state \<Rightarrow> 'w drag_state" where
  "start obj e threshold s =
     (let t = (case threshold of None \<Rightarrow> 0 | Some v \<Rightarrow> v) in
      s\<lparr>drag_object := Some obj, drag_threshold := t * t,
        drag_x := clientX e, drag_y := clientY e\<rparr>)"

definition call_dragMove ::
  "'w drag_target \<Rightarrow> int \<Rightarrow> int \<Rightarrow> mouse_event \<Rightarrow> 'w drag_state \<Rightarrow> 'w drag_state completion" where
  "call_dragMove obj dx dy e s =
     (let s' = s\<lparr>calls := calls s @ [Call_dragMove dx dy e]\<rparr> in
      case dragMove obj dx dy e (world s') of
        (None, w') \<Rightarrow> Returns (s'\<lparr>world := w'\<rparr>)
      | (Some err, w') \<Rightarrow> Throws err (s'\<lparr>world := w'\<rparr>))"

definition call_dragEnd :: "'w drag_target \<Rightarrow> 'w drag_state \<Rightarrow> 'w drag_state completion" where
  "call_dragEnd obj s =
     (let s' = s\<lparr>calls := calls s @ [Call_dragEnd]\<rparr> in
      case dragEnd obj (world s') of
        (None, w') \<Rightarrow> Returns (s'\<lparr>world := w'\<rparr>)
      | (Some err, w') \<Rightarrow> Throws err (s'\<lparr>world := w'\<rparr>))"

definition console_error :: "string \<Rightarrow> js_error \<Rightarrow> 'w drag_state \<Rightarrow> 'w drag_state completion" where
  "console_error label err s = Returns (s\<lparr>console := console s @ [(label, err)]\<rparr>)"

text \<open>\<^verbatim>\<open>try { body } catch (err) { handler }\<close>\<close>

definition try_catch ::
  "('s \<Rightarrow> 's completion) \<Rightarrow> (js_error \<Rightarrow> 's \<Rightarrow> 's completion) \<Rightarrow> 's \<Rightarrow> 's completion" where
  "try_catch body handler s =
     (case body s of Returns s' \<Rightarrow> Returns s' | Throws err s' \<Rightarrow> handler err s')"

text \<open>The \<^verbatim>\<open>mousemove\<close> listener (lines 21-32).\<close>

definition mousemove :: "mouse_event \<Rightarrow> 'w drag_state \<Rightarrow> 'w drag_state completion" where
  "mousemove e s =
     (case drag_object s of
        None \<Rightarrow> Returns s
      | Some obj \<Rightarrow>
          (let dx = clientX e - drag_x s;
               dy = clientY e - drag_y s
           in if drag_threshold s \<noteq> 0 \<and> dx * dx + dy * dy < drag_threshold s then Returns s
              else
                (let s1 = (if drag_threshold s \<noteq> 0 then s\<lparr>drag_threshold := 0\<rparr> else s) in
                 case try_catch (call_dragMove obj dx dy e) (console_error ''dragMove error'') s1 of
                   Throws err s2 \<Rightarrow> Throws err s2
                 | Returns s2 \<Rightarrow> Returns (s2\<lparr>drag_x := clientX e, drag_y := clientY e\<rparr>))))"

text \<open>The \<^verbatim>\<open>mouseup\<close> listener (lines 34-38).\<close>

definition mouseup :: "'w drag_state \<Rightarrow> 'w drag_state completion" where
  "mouseup s =
     (case drag_object s of
        None \<Rightarrow> Returns s
      | Some obj \<Rightarrow>
          (case try_catch (\<lambda>s. if drag_threshold s = 0 then call_dragEnd obj s else Returns s)
                  (console_error ''dragEnd error'') s of
             Throws err s1 \<Rightarrow> Throws err s1
           | Returns s1 \<Rightarrow> Returns (s1\<lparr>drag_object := None\<rparr>)))"

text \<open>
  Pointer events arrive one after the other. A run of events stops at the first listener
  that lets an exception escape.
\<close>

datatype pointer_event = Mousemove mouse_event | Mouseup

fun handle :: "pointer_event \<Rightarrow> 'w drag_state \<Rightarrow> 'w drag_state completion" where
  "handle (Mousemove e) s = mousemove e s"
| "handle Mouseup s = mouseup s"

fun run :: "pointer_event list \<Rightarrow> 'w drag_state \<Rightarrow> 'w drag_state completion" where
  "run [] s = Returns s"
| "run (ev # evs) s =
     (case handle ev s of Returns s' \<Rightarrow> run evs s' | Throws err s' \<Rightarrow> Throws err s')"

text \<open>The squared distance of a pointer position from a start point.\<close>

definition dist2 :: "mouse_event \<Rightarrow> mouse_event \<Rightarrow> int" where
  "dist2 e0 e =
     (clientX e - clientX e0) * (clientX e - clientX e0)
       + (clientY e - clientY e0) * (clientY e - clientY e0)"

text \<open>The state of the singleton before any drag: no target, no calls made, nothing logged.\<close>

definition idle :: "'w \<Rightarrow> 'w drag_state" where
  "idle w = \<lparr>drag_object = None, drag_x = 0, drag_y = 0, drag_threshold = 0,
             world = w, calls = [], console = []\<rparr>"

text \<open>
  Two targets over a page that is a counter: one whose methods return (\<open>dragMove\<close> adds
  1 to the counter, \<open>dragEnd\<close> adds 100), and one whose methods both throw.
\<close>

definition counting_target :: "nat drag_target" where
  "counting_target =
     \<lparr>dragMove = (\<lambda>dx dy e w. (None, w + 1)), dragEnd = (\<lambda>w. (None, w + 100))\<rparr>"

definition broken_target :: "nat drag_target" where
  "broken_target =
     \<lparr>dragMove = (\<lambda>dx dy e w. (Some ''TypeError'', w)), dragEnd = (\<lambda>w. (Some ''TypeError'', w))\<rparr>"

definition pt :: "int \<Rightarrow> int \<Rightarrow> mouse_event" where
  "pt a b = \<lparr>clientX = a, clientY = b\<rparr>"

text \<open>
  The \<open>dragMove\<close> calls of a drag in which every move is dispatched: each move is
  reported with its difference to the point before it, the first one to the point \<open>p\<close>.
\<close>

fun moves_calls :: "mouse_event \<Rightarrow> mouse_event list \<Rightarrow> call list" where
  "moves_calls p [] = []"
| "moves_calls p (e # es) =
     Call_dragMove (clientX e - clientX p) (clientY e - clientY p) e # moves_calls e es"

section \<open>WindowHost and Window (scripts.js, lines 46-310)\<close>

text \<open>
  DOM elements and \<^verbatim>\<open>Window\<close> objects are referred to by identity. The page holds a store
  of elements (\<open>dom\<close>) and a store of \<^verbatim>\<open>Window\<close> objects (\<open>heap\<close>); \<open>next_ref\<close> is the
  identity that the next \<^verbatim>\<open>new Window(...)\<close> gets. There is one \<^verbatim>\<open>WindowHost\<close> per page
  (\<^verbatim>\<open>hostRef\<close>), so its fields are fields of the page, and \<^verbatim>\<open>this.host\<close> of a window is
  that host.
\<close>

type_synonym elem = nat
type_synonym wref = nat

record rect =
  r_left :: int
  r_top :: int
  r_width :: int
  r_height :: int

text \<open>The object literal \<^verbatim>\<open>{ x, y, width, height }\<close> kept in \<^verbatim>\<open>oldPosition\<close>.\<close>

record geometry =
  g_x :: int
  g_y :: int
  g_width :: int
  g_height :: int

text \<open>
  What the code reads from and writes to an element:
  \<^item> \<open>el_rect\<close>: the result of \<^verbatim>\<open>getBoundingClientRect()\<close>, given by the browser's layout;
  \<^item> \<open>el_cs_width\<close>, \<open>el_cs_height\<close>: \<^verbatim>\<open>parseInt\<close> of the computed width and height,
    \<open>None\<close> when it is NaN;
  \<^item> \<open>csWindow\<close>: the back-reference that the \<^verbatim>\<open>Window\<close> constructor stores on its root;
  \<^item> \<open>cls_active\<close>, \<open>cls_maximized\<close>: whether \<^verbatim>\<open>classList\<close> holds
    \<^verbatim>\<open>'active'\<close> and \<^verbatim>\<open>'maximized'\<close>;
  \<^item> \<open>style_zIndex\<close>: \<^verbatim>\<open>style.zIndex\<close>, \<open>None\<close> while the code has not set it;
  \<^item> \<open>style_box\<close>: \<^verbatim>\<open>style.left\<close>, \<^verbatim>\<open>top\<close>, \<^verbatim>\<open>width\<close> and \<^verbatim>\<open>height\<close> in pixels, as
    \<^verbatim>\<open>updatePosition\<close> writes them.
\<close>

record element =
  el_rect :: rect
  el_cs_width :: "int option"
  el_cs_height :: "int option"
  csWindow :: "wref option"
  cls_active :: bool
  cls_maximized :: bool
  style_zIndex :: "int option"
  style_box :: "geometry option"

text \<open>
  The fields of a \<^verbatim>\<open>Window\<close> object (\<^verbatim>\<open>this.root\<close>, \<^verbatim>\<open>this.x\<close>, ...). The root is an
  element: the constructor reads \<^verbatim>\<open>this.root.csWindow\<close>, so no \<^verbatim>\<open>Window\<close> exists without
  one.
\<close>

record Window =
  w_root :: elem
  w_resizeX :: int
  w_resizeY :: int
  w_resizeCursor :: string
  w_resizing :: bool
  w_maximized :: bool
  w_oldPosition :: "geometry option"
  w_x :: int
  w_y :: int
  w_width :: int
  w_height :: int

record page =
  dom :: "elem \<Rightarrow> element"
  heap :: "wref \<Rightarrow> Window"
  next_ref :: wref
  host_rect :: rect
  edgeMaximize :: bool
  windows :: "wref list"
  activeWindow :: "wref option"
  maxZIndex :: int

text \<open>The fields a \<^verbatim>\<open>Window\<close> has before \<^verbatim>\<open>init()\<close> runs (lines 103-111).\<close>

definition Window_fields :: "elem \<Rightarrow> Window" where
  "Window_fields el =
     \<lparr>w_root = el, w_resizeX = 0, w_resizeY = 0, w_resizeCursor = [], w_resizing = False,
      w_maximized = False, w_oldPosition = None,
      w_x = 0, w_y = 0, w_width = 300, w_height = 200\<rparr>"

text \<open>
  \<^verbatim>\<open>new WindowHost(root)\<close> (lines 47-61) on a page with the elements \<open>d\<close> whose host root
  has the bounding rectangle \<open>hr\<close>. No \<^verbatim>\<open>Window\<close> object exists yet.
\<close>

definition WindowHost :: "(elem \<Rightarrow> element) \<Rightarrow> rect \<Rightarrow> page" where
  "WindowHost d hr =
     \<lparr>dom = d, heap = (\<lambda>w. Window_fields 0), next_ref = 0, host_rect = hr,
      edgeMaximize = True, windows = [], activeWindow = None, maxZIndex = 1000\<rparr>"

text \<open>
  \<^verbatim>\<open>updatePosition()\<close> (lines 260-283) writes the window's geometry to the style of its
  root. It also sets the height of the \<^verbatim>\<open>.window-body\<close> child, which nothing here reads.
  \<open>style_box\<close> records the values as assigned; a browser ignores the assignment of a
  negative width or height, and no statement below reads \<open>style_box\<close>.
\<close>

definition updatePosition :: "wref \<Rightarrow> page \<Rightarrow> page" where
  "updatePosition w s =
     (let this = heap s w; r = w_root this in
      s\<lparr>dom := (dom s)(r := (dom s r)\<lparr>style_box :=
           Some \<lparr>g_x = w_x this, g_y = w_y this,
                 g_width = w_width this, g_height = w_height this\<rparr>\<rparr>)\<rparr>)"

text \<open>\<^verbatim>\<open>Math.round(a / 2)\<close> for an integer \<open>a\<close>: halves round towards plus infinity.\<close>

definition round_half :: "int \<Rightarrow> int" where
  "round_half a = (a + 1) div 2"

text \<open>\<^verbatim>\<open>parseInt(v) || d\<close>: NaN and 0 are falsy.\<close>

definition or_default :: "int option \<Rightarrow> int \<Rightarrow> int" where
  "or_default v d = (case v of None \<Rightarrow> d | Some n \<Rightarrow> if n = 0 then d else n)"

text \<open>\<^verbatim>\<open>init()\<close> (lines 118-137). \<^verbatim>\<open>style.position = 'absolute'\<close> is not read by the code.\<close>

definition init :: "wref \<Rightarrow> page \<Rightarrow> page" where
  "init w s =
     (let this = heap s w;
          hostRect = host_rect s;
          rect = el_rect (dom s (w_root this));
          this' =
            (if r_width rect > 0 then
               this\<lparr>w_x := max 0 (r_left rect - r_left hostRect),
                    w_y := max 0 (r_top rect - r_top hostRect),
                    w_width := r_width rect,
                    w_height := r_height rect\<rparr>
             else
               (let wd = or_default (el_cs_width (dom s (w_root this))) (w_width this);
                    ht = or_default (el_cs_height (dom s (w_root this))) (w_height this)
                in this\<lparr>w_width := wd, w_height := ht,
                        w_x := max 0 (round_half (r_width hostRect - wd)),
                        w_y := max 0 (round_half (r_height hostRect - ht))\<rparr>))
      in updatePosition w (s\<lparr>heap := (heap s)(w := this')\<rparr>))"

text \<open>
  \<^verbatim>\<open>new Window(root, host)\<close> (lines 102-116): a fresh object, the back-reference on the
  root, then \<^verbatim>\<open>init()\<close>. \<^verbatim>\<open>initButtons()\<close> and \<^verbatim>\<open>attachEvents()\<close> only register listeners.
  The result is the new object and the page.
\<close>

definition Window_new :: "elem \<Rightarrow> page \<Rightarrow> wref \<times> page" where
  "Window_new el s =
     (let w = next_ref s;
          s1 = s\<lparr>next_ref := Suc w,
                 heap := (heap s)(w := Window_fields el),
                 dom := (dom s)(el := (dom s el)\<lparr>csWindow := Some w\<rparr>)\<rparr>
      in (w, init w s1))"

text \<open>\<^verbatim>\<open>setActive(active)\<close> (lines 198-200).\<close>

definition setActive :: "wref \<Rightarrow> bool \<Rightarrow> page \<Rightarrow> page" where
  "setActive w active s =
     (let r = w_root (heap s w) in
      s\<lparr>dom := (dom s)(r := (dom s r)\<lparr>cls_active := active\<rparr>)\<rparr>)"

text \<open>
  \<^verbatim>\<open>bringToFront(windowInstance)\<close> (lines 93-98). The argument may be \<^verbatim>\<open>null\<close>; the root
  of a \<^verbatim>\<open>Window\<close> is never falsy.
\<close>

fun bringToFront :: "wref option \<Rightarrow> page \<Rightarrow> page" where
  "bringToFront None s = s"
| "bringToFront (Some w) s =
     (let s1 = s\<lparr>maxZIndex := maxZIndex s + 1\<rparr>;
          r = w_root (heap s1 w)
      in s1\<lparr>dom := (dom s1)(r := (dom s1 r)\<lparr>style_zIndex := Some (maxZIndex s1)\<rparr>)\<rparr>)"

text \<open>\<^verbatim>\<open>WindowHost.focus(w)\<close> (lines 83-90).\<close>

definition focus :: "wref option \<Rightarrow> page \<Rightarrow> page" where
  "focus w s =
     (let s1 = (case activeWindow s of
                  None \<Rightarrow> s
                | Some a \<Rightarrow> if Some a \<noteq> w then setActive a False s else s);
          s2 = s1\<lparr>activeWindow := w\<rparr>
      in case activeWindow s2 of
           None \<Rightarrow> s2
         | Some a \<Rightarrow> bringToFront (Some a) (setActive a True s2))"

text \<open>\<^verbatim>\<open>Window.focus()\<close> (line 202).\<close>

definition Window_focus :: "wref \<Rightarrow> page \<Rightarrow> page" where
  "Window_focus w s = focus (Some w) s"

text \<open>\<^verbatim>\<open>reposition()\<close> (lines 245-258).\<close>

definition reposition :: "wref \<Rightarrow> page \<Rightarrow> page" where
  "reposition w s =
     (let hostRect = host_rect s;
          this = heap s w;
          this' =
            (if w_maximized this then
               this\<lparr>w_x := 0, w_y := 0, w_width := r_width hostRect, w_height := r_height hostRect\<rparr>
             else
               (let t1 = (if w_y this < 0 then this\<lparr>w_y := 0\<rparr>
                          else if w_y this + 30 > r_height hostRect
                               then this\<lparr>w_y := r_height hostRect - 30\<rparr>
                          else this)
                in if w_x t1 + w_width t1 < 50 then t1\<lparr>w_x := 50 - w_width t1\<rparr>
                   else if w_x t1 + 30 > r_width hostRect then t1\<lparr>w_x := r_width hostRect - 30\<rparr>
                   else t1))
      in updatePosition w (s\<lparr>heap := (heap s)(w := this')\<rparr>))"

text \<open>\<^verbatim>\<open>this.root.classList.add('maximized')\<close> and \<^verbatim>\<open>remove('maximized')\<close>.\<close>

definition set_cls_maximized :: "wref \<Rightarrow> bool \<Rightarrow> page \<Rightarrow> page" where
  "set_cls_maximized w b s =
     (let r = w_root (heap s w) in
      s\<lparr>dom := (dom s)(r := (dom s r)\<lparr>cls_maximized := b\<rparr>)\<rparr>)"

text \<open>
  \<^verbatim>\<open>maximize()\<close> (lines 285-298). \<^verbatim>\<open>Object.assign(this, this.oldPosition)\<close> copies the four
  saved fields back.
\<close>

definition maximize :: "wref \<Rightarrow> page \<Rightarrow> page" where
  "maximize w s =
     (let this = heap s w;
          s1 = s\<lparr>heap := (heap s)(w := this\<lparr>w_maximized := \<not> w_maximized this\<rparr>)\<rparr>
      in if w_maximized (heap s1 w) then
           (let s2 = set_cls_maximized w True s1;
                t2 = heap s2 w;
                s3 = s2\<lparr>heap := (heap s2)(w := t2\<lparr>w_oldPosition :=
                       Some \<lparr>g_x = w_x t2, g_y = w_y t2,
                             g_width = w_width t2, g_height = w_height t2\<rparr>\<rparr>)\<rparr>
            in reposition w s3)
         else
           (let s2 = set_cls_maximized w False s1 in
            case w_oldPosition (heap s2 w) of
              None \<Rightarrow> s2
            | Some old \<Rightarrow>
                (let t2 = heap s2 w;
                     s3 = s2\<lparr>heap := (heap s2)(w := t2\<lparr>w_x := g_x old, w_y := g_y old,
                            w_width := g_width old, w_height := g_height old\<rparr>)\<rparr>
                 in reposition w s3)))"

text \<open>
  \<^verbatim>\<open>WindowHost.create(windowElement)\<close> (lines 64-76). The argument may be \<^verbatim>\<open>null\<close>; the
  result is the \<^verbatim>\<open>Window\<close> returned, or \<open>None\<close> for \<^verbatim>\<open>null\<close>.
\<close>

fun create :: "elem option \<Rightarrow> page \<Rightarrow> wref option \<times> page" where
  "create None s = (None, s)"
| "create (Some el) s =
     (case csWindow (dom s el) of
        Some w \<Rightarrow> (Some w, Window_focus w (reposition w s))
      | None \<Rightarrow>
          (let (w, s1) = Window_new el s;
               s2 = s1\<lparr>windows := windows s1 @ [w]\<rparr>
           in (Some w, Window_focus w s2)))"

text \<open>A call of \<^verbatim>\<open>create\<close>, for its effect and for its result.\<close>

definition creates :: "elem option \<Rightarrow> page \<Rightarrow> page" where
  "creates el s = snd (create el s)"

definition created :: "elem option \<Rightarrow> page \<Rightarrow> wref option" where
  "created el s = fst (create el s)"

text \<open>\<^verbatim>\<open>create\<close> called \<open>n\<close> times in a row on the same element.\<close>

fun create_times :: "nat \<Rightarrow> elem option \<Rightarrow> page \<Rightarrow> page" where
  "create_times 0 el s = s"
| "create_times (Suc n) el s = create_times n el (creates el s)"

text \<open>A sequence of \<^verbatim>\<open>focus\<close> calls.\<close>

fun focus_all :: "wref option list \<Rightarrow> page \<Rightarrow> page" where
  "focus_all [] s = s"
| "focus_all (a # as) s = focus_all as (focus a s)"

text \<open>A window is active when its root carries the class \<^verbatim>\<open>'active'\<close>.\<close>

definition is_active :: "page \<Rightarrow> wref \<Rightarrow> bool" where
  "is_active s w = cls_active (dom s (w_root (heap s w)))"

definition active_windows :: "page \<Rightarrow> wref list" where
  "active_windows s = filter (is_active s) (windows s)"

text \<open>The stacking value of a window, and its geometry.\<close>

definition zIndex :: "page \<Rightarrow> wref \<Rightarrow> int option" where
  "zIndex s w = style_zIndex (dom s (w_root (heap s w)))"

definition geometry_of :: "page \<Rightarrow> wref \<Rightarrow> geometry" where
  "geometry_of s w =
     \<lparr>g_x = w_x (heap s w), g_y = w_y (heap s w),
      g_width = w_width (heap s w), g_height = w_height (heap s w)\<rparr>"

text \<open>
  The stacking values handed out by a sequence of \<^verbatim>\<open>bringToFront\<close> calls, in call order. A
  call with \<^verbatim>\<open>null\<close> hands out none.
\<close>

fun stacking_values :: "wref option list \<Rightarrow> page \<Rightarrow> int list" where
  "stacking_values [] s = []"
| "stacking_values (None # as) s = stacking_values as (bringToFront None s)"
| "stacking_values (Some w # as) s =
     (let s' = bringToFront (Some w) s in
      (case zIndex s' w of None \<Rightarrow> [] | Some v \<Rightarrow> [v]) @ stacking_values as s')"

fun bringToFront_all :: "wref option list \<Rightarrow> page \<Rightarrow> page" where
  "bringToFront_all [] s = s"
| "bringToFront_all (a # as) s = bringToFront_all as (bringToFront a s)"

text \<open>The most recent argument of a sequence of \<^verbatim>\<open>focus\<close> calls that is not \<^verbatim>\<open>null\<close>.\<close>

fun last_focused :: "wref option list \<Rightarrow> wref option" where
  "last_focused [] = None"
| "last_focused (a # as) = (case last_focused as of Some w \<Rightarrow> Some w | None \<Rightarrow> a)"

text \<open>
  The windows of a host are its \<^verbatim>\<open>Window\<close> objects: distinct objects, each on a root of its
  own, and the class \<^verbatim>\<open>'active'\<close> is on the root of the host's active window only.
\<close>

definition host_ok :: "page \<Rightarrow> bool" where
  "host_ok s \<longleftrightarrow>
     distinct (windows s) \<and>
     distinct (map (\<lambda>w. w_root (heap s w)) (windows s)) \<and>
     (case activeWindow s of None \<Rightarrow> True | Some a \<Rightarrow> a \<in> set (windows s)) \<and>
     active_windows s = (case activeWindow s of None \<Rightarrow> [] | Some a \<Rightarrow> [a])"

text \<open>A page for the examples: element 0 is placed low in a host root of 800 by 400.\<close>

definition el0 :: element where
  "el0 = \<lparr>el_rect = \<lparr>r_left = 10, r_top = 500, r_width = 300, r_height = 200\<rparr>,
          el_cs_width = Some 300, el_cs_height = Some 200, csWindow = None,
          cls_active = False, cls_maximized = False, style_zIndex = None, style_box = None\<rparr>"

definition el1 :: element where
  "el1 = \<lparr>el_rect = \<lparr>r_left = 40, r_top = 60, r_width = 320, r_height = 240\<rparr>,
          el_cs_width = Some 320, el_cs_height = Some 240, csWindow = None,
          cls_active = False, cls_maximized = False, style_zIndex = None, style_box = None\<rparr>"

definition page0 :: page where
  "page0 = WindowHost (\<lambda>e. if e = 0 then el0 else el1)
             \<lparr>r_left = 0, r_top = 0, r_width = 800, r_height = 400\<rparr>"

definition two_windows :: page where
  "two_windows = creates (Some 1) (creates (Some 0) page0)"

text \<open>
  The page after window 1 was moved 440 pixels to the left, and the page after the host
  root shrank to a height of 20.
\<close>

definition moved_left :: page where
  "moved_left = two_windows\<lparr>heap := (heap two_windows)(1 := (heap two_windows 1)\<lparr>w_x := - 400\<rparr>)\<rparr>"

definition low_host :: page where
  "low_host = two_windows\<lparr>host_rect := \<lparr>r_left = 0, r_top = 0, r_width = 800, r_height = 20\<rparr>\<rparr>"

text \<open>An argument of \<^verbatim>\<open>focus\<close>: \<^verbatim>\<open>null\<close> or one of the host's windows.\<close>

definition focus_arg_ok :: "page \<Rightarrow> wref option \<Rightarrow> bool" where
  "focus_arg_ok s a = (case a of None \<Rightarrow> True | Some w \<Rightarrow> w \<in> set (windows s))"

text \<open>
  What the constructor and \<^verbatim>\<open>create\<close> establish on top of \<open>host_ok\<close>: every window was
  allocated, its root refers back to it, and a back-reference refers to a window of the
  host.
\<close>

definition host_wf :: "page \<Rightarrow> bool" where
  "host_wf s \<longleftrightarrow>
     host_ok s \<and>
     (\<forall>u\<in>set (windows s). u < next_ref s \<and> csWindow (dom s (w_root (heap s u))) = Some u) \<and>
     (\<forall>e w. csWindow (dom s e) = Some w \<longrightarrow> w \<in> set (windows s))"

section \<open>Properties of the drag singleton\<close>


lemma mousemove_pending:
  assumes "drag_object s = Some obj" and "drag_threshold s \<noteq> 0"
    and "(clientX e - drag_x s) * (clientX e - drag_x s)
           + (clientY e - drag_y s) * (clientY e - drag_y s) < drag_threshold s"
  shows "mousemove e s = Returns s"
  using assms by (simp add: mousemove_def Let_def)


lemma mousemove_dispatch:
  assumes "drag_object s = Some obj"
    and "\<not> (drag_threshold s \<noteq> 0 \<and> dist2 (pt (drag_x s) (drag_y s)) e < drag_threshold s)"
  shows "\<exists>w' lg. mousemove e s = Returns (s\<lparr>drag_threshold := 0,
            calls := calls s @ [Call_dragMove (clientX e - drag_x s) (clientY e - drag_y s) e],
            world := w', console := console s @ lg,
            drag_x := clientX e, drag_y := clientY e\<rparr>)"
proof (cases "dragMove obj (clientX e - drag_x s) (clientY e - drag_y s) e (world s)")
  case (Pair r w')
  show ?thesis
  proof (cases r)
    case None
    with Pair assms have "mousemove e s = Returns (s\<lparr>drag_threshold := 0,
            calls := calls s @ [Call_dragMove (clientX e - drag_x s) (clientY e - drag_y s) e],
            world := w', console := console s @ [],
            drag_x := clientX e, drag_y := clientY e\<rparr>)"
      by (auto simp: mousemove_def Let_def dist2_def pt_def try_catch_def call_dragMove_def)
    then show ?thesis by blast
  next
    case (Some err)
    with Pair assms have "mousemove e s = Returns (s\<lparr>drag_threshold := 0,
            calls := calls s @ [Call_dragMove (clientX e - drag_x s) (clientY e - drag_y s) e],
            world := w', console := console s @ [(''dragMove error'', err)],
            drag_x := clientX e, drag_y := clientY e\<rparr>)"
      by (auto simp: mousemove_def Let_def dist2_def pt_def try_catch_def call_dragMove_def console_error_def)
    then show ?thesis by blast
  qed
qed

lemma mousemove_returns: "is_Returns (mousemove e s)"
  by (auto simp: mousemove_def Let_def try_catch_def call_dragMove_def console_error_def
      split: option.splits prod.splits completion.splits)

lemma mouseup_returns: "is_Returns (mouseup s)"
  by (auto simp: mouseup_def Let_def try_catch_def call_dragEnd_def console_error_def
      split: option.splits prod.splits completion.splits)

lemma mouseup_clears: "drag_object (state_of (mouseup s)) = None"
  by (auto simp: mouseup_def Let_def try_catch_def call_dragEnd_def console_error_def
      split: option.splits prod.splits completion.splits)

lemma run_returns: "is_Returns (run evs s)"
proof (induction evs arbitrary: s)
  case Nil
  show ?case by simp
next
  case (Cons ev evs)
  have "is_Returns (handle ev s)"
    by (cases ev) (simp_all add: mousemove_returns mouseup_returns)
  then obtain s' where "handle ev s = Returns s'"
    by (cases "handle ev s") auto
  with Cons.IH show ?case by simp
qed


lemma run_append:
  "run (as @ bs) s = (case run as s of Returns s' \<Rightarrow> run bs s' | Throws err s' \<Rightarrow> Throws err s')"
proof (induction as arbitrary: s)
  case Nil
  show ?case by simp
next
  case (Cons a as)
  then show ?case by (cases "handle a s") simp_all
qed

lemma run_pending:
  assumes "drag_object s = Some obj" and "drag_threshold s \<noteq> 0"
    and "\<forall>e\<in>set es. dist2 (pt (drag_x s) (drag_y s)) e < drag_threshold s"
  shows "run (map Mousemove es) s = Returns s"
  using assms
proof (induction es)
  case Nil
  show ?case by simp
next
  case (Cons e es)
  from Cons.prems have "mousemove e s = Returns s"
    by (intro mousemove_pending[of s obj]) (simp_all add: dist2_def pt_def)
  with Cons show ?case by simp
qed


lemma count_list_snoc: "count_list (xs @ [x]) y = count_list xs y + (if x = y then 1 else 0)"
  by (induction xs) simp_all

lemma pt_start: "pt (clientX e0) (clientY e0) = e0"
  by (simp add: pt_def)

lemma pt_sel: "clientX (pt a b) = a" "clientY (pt a b) = b"
  by (simp_all add: pt_def)

lemma mousemove_throws:
  assumes "drag_object s = Some obj"
    and "\<not> (drag_threshold s \<noteq> 0 \<and> dist2 (pt (drag_x s) (drag_y s)) e < drag_threshold s)"
    and "dragMove obj (clientX e - drag_x s) (clientY e - drag_y s) e (world s) = (Some err, w')"
  shows "mousemove e s = Returns (s\<lparr>drag_threshold := 0,
            calls := calls s @ [Call_dragMove (clientX e - drag_x s) (clientY e - drag_y s) e],
            world := w', console := console s @ [(''dragMove error'', err)],
            drag_x := clientX e, drag_y := clientY e\<rparr>)"
  using assms
  by (auto simp: mousemove_def Let_def dist2_def pt_def try_catch_def call_dragMove_def
      console_error_def)

lemma mousemove_quiet:
  assumes "drag_object s = Some obj"
    and "\<not> (drag_threshold s \<noteq> 0 \<and> dist2 (pt (drag_x s) (drag_y s)) e < drag_threshold s)"
    and "dragMove obj (clientX e - drag_x s) (clientY e - drag_y s) e (world s) = (None, w')"
  shows "mousemove e s = Returns (s\<lparr>drag_threshold := 0,
            calls := calls s @ [Call_dragMove (clientX e - drag_x s) (clientY e - drag_y s) e],
            world := w', drag_x := clientX e, drag_y := clientY e\<rparr>)"
  using assms
  by (auto simp: mousemove_def Let_def dist2_def pt_def try_catch_def call_dragMove_def)

lemma mouseup_throws:
  assumes "drag_object s = Some obj" and "drag_threshold s = 0"
    and "dragEnd obj (world s) = (Some err, w')"
  shows "mouseup s = Returns (s\<lparr>calls := calls s @ [Call_dragEnd], world := w',
            console := console s @ [(''dragEnd error'', err)], drag_object := None\<rparr>)"
  using assms
  by (simp add: mouseup_def try_catch_def call_dragEnd_def console_error_def Let_def)

lemma mouseup_quiet:
  assumes "drag_object s = Some obj" and "drag_threshold s = 0"
    and "dragEnd obj (world s) = (None, w')"
  shows "mouseup s = Returns (s\<lparr>calls := calls s @ [Call_dragEnd], world := w',
            drag_object := None\<rparr>)"
  using assms
  by (simp add: mouseup_def try_catch_def call_dragEnd_def Let_def)


lemma run_dragging:
  assumes "drag_object s = Some obj" and "drag_threshold s = 0"
  shows "\<exists>s'. run (map Mousemove ms) s = Returns s' \<and> drag_object s' = Some obj \<and>
           drag_threshold s' = 0 \<and>
           calls s' = calls s @ moves_calls (pt (drag_x s) (drag_y s)) ms \<and>
           pt (drag_x s') (drag_y s') = last (pt (drag_x s) (drag_y s) # ms)"
  using assms
proof (induction ms arbitrary: s)
  case Nil
  then show ?case by simp
next
  case (Cons e ms)
  from Cons.prems obtain w' lg where step: "mousemove e s = Returns (s\<lparr>drag_threshold := 0,
            calls := calls s @ [Call_dragMove (clientX e - drag_x s) (clientY e - drag_y s) e],
            world := w', console := console s @ lg,
            drag_x := clientX e, drag_y := clientY e\<rparr>)" (is "_ = Returns ?t")
    using mousemove_dispatch[of s obj e] by auto
  have "drag_object ?t = Some obj" and "drag_threshold ?t = 0"
    using Cons.prems by simp_all
  from Cons.IH[OF this] obtain s' where "run (map Mousemove ms) ?t = Returns s'"
    and "drag_object s' = Some obj" and "drag_threshold s' = 0"
    and "calls s' = calls ?t @ moves_calls (pt (drag_x ?t) (drag_y ?t)) ms"
    and "pt (drag_x s') (drag_y s') = last (pt (drag_x ?t) (drag_y ?t) # ms)"
    by blast
  with step show ?case by (simp add: pt_start pt_sel)
qed

lemma run_dragging_console:
  assumes "drag_object s = Some obj" and "drag_threshold s = 0"
    and "\<forall>dx dy e w. fst (dragMove obj dx dy e w) = Some err"
  shows "console (state_of (run (map Mousemove ms) s))
           = console s @ replicate (length ms) (''dragMove error'', err)"
  using assms(1,2)
proof (induction ms arbitrary: s)
  case Nil
  then show ?case by simp
next
  case (Cons e ms)
  let ?r = "dragMove obj (clientX e - drag_x s) (clientY e - drag_y s) e (world s)"
  have "?r = (Some err, snd ?r)"
    using assms(3) by (metis prod.collapse)
  from mousemove_throws[OF Cons.prems(1) _ this] Cons.prems(2)
  have step: "mousemove e s = Returns (s\<lparr>drag_threshold := 0,
            calls := calls s @ [Call_dragMove (clientX e - drag_x s) (clientY e - drag_y s) e],
            world := snd ?r, console := console s @ [(''dragMove error'', err)],
            drag_x := clientX e, drag_y := clientY e\<rparr>)" (is "_ = Returns ?t")
    by simp
  have "drag_object ?t = Some obj" and "drag_threshold ?t = 0"
    using Cons.prems by simp_all
  from Cons.IH[OF this] step show ?case
    by simp
qed

lemma dragged_session:
  assumes "drag_object s = Some obj"
    and "\<not> (drag_threshold s \<noteq> 0 \<and> dist2 (pt (drag_x s) (drag_y s)) e < drag_threshold s)"
  shows "\<exists>s'. run (Mousemove e # map Mousemove ms @ [Mouseup]) s = Returns s' \<and>
           calls s' = calls s @ moves_calls (pt (drag_x s) (drag_y s)) (e # ms) @ [Call_dragEnd] \<and>
           drag_object s' = None \<and> drag_threshold s' = 0 \<and>
           pt (drag_x s') (drag_y s') = last (e # ms)"
proof -
  from mousemove_dispatch[OF assms] obtain w' lg where
    step: "mousemove e s = Returns (s\<lparr>drag_threshold := 0,
            calls := calls s @ [Call_dragMove (clientX e - drag_x s) (clientY e - drag_y s) e],
            world := w', console := console s @ lg,
            drag_x := clientX e, drag_y := clientY e\<rparr>)" (is "_ = Returns ?t")
    by blast
  have "drag_object ?t = Some obj" and "drag_threshold ?t = 0"
    using assms(1) by simp_all
  from run_dragging[OF this, of ms] obtain s2 where
    r2: "run (map Mousemove ms) ?t = Returns s2" and o2: "drag_object s2 = Some obj"
    and t2: "drag_threshold s2 = 0"
    and c2: "calls s2 = calls ?t @ moves_calls (pt (drag_x ?t) (drag_y ?t)) ms"
    and p2: "pt (drag_x s2) (drag_y s2) = last (pt (drag_x ?t) (drag_y ?t) # ms)"
    by blast
  have "\<exists>s3. mouseup s2 = Returns s3 \<and> calls s3 = calls s2 @ [Call_dragEnd] \<and>
      drag_object s3 = None \<and> drag_threshold s3 = 0 \<and>
      drag_x s3 = drag_x s2 \<and> drag_y s3 = drag_y s2"
  proof (cases "dragEnd obj (world s2)")
    case (Pair r w2)
    show ?thesis
    proof (cases r)
      case None
      with Pair mouseup_quiet[OF o2 t2] t2 show ?thesis by simp
    next
      case (Some err)
      with Pair mouseup_throws[OF o2 t2] t2 show ?thesis by simp
    qed
  qed
  then obtain s3 where
    up: "mouseup s2 = Returns s3" and c3: "calls s3 = calls s2 @ [Call_dragEnd]"
    and o3: "drag_object s3 = None" and t3: "drag_threshold s3 = 0"
    and p3: "drag_x s3 = drag_x s2" "drag_y s3 = drag_y s2"
    by blast
  have "run (Mousemove e # map Mousemove ms @ [Mouseup]) s = Returns s3"
    using step r2 up by (simp add: run_append)
  moreover have "calls s3 = calls s @ moves_calls (pt (drag_x s) (drag_y s)) (e # ms) @ [Call_dragEnd]"
    using c3 c2 by (simp add: pt_start pt_sel)
  moreover have "pt (drag_x s3) (drag_y s3) = last (e # ms)"
    using p2 p3 by (simp add: pt_start)
  ultimately show ?thesis
    using o3 t3 by blast
qed

lemma session_console:
  assumes "drag_object s = Some obj"
    and "\<not> (drag_threshold s \<noteq> 0 \<and> dist2 (pt (drag_x s) (drag_y s)) e < drag_threshold s)"
    and tm: "\<forall>dx dy e w. fst (dragMove obj dx dy e w) = Some err"
    and te: "\<forall>w. fst (dragEnd obj w) = Some err"
  shows "console (state_of (run (Mousemove e # map Mousemove ms @ [Mouseup]) s))
           = console s @ replicate (Suc (length ms)) (''dragMove error'', err)
               @ [(''dragEnd error'', err)]"
proof -
  let ?r = "dragMove obj (clientX e - drag_x s) (clientY e - drag_y s) e (world s)"
  have "?r = (Some err, snd ?r)"
    using tm by (metis prod.collapse)
  from mousemove_throws[OF assms(1,2) this]
  have step: "mousemove e s = Returns (s\<lparr>drag_threshold := 0,
            calls := calls s @ [Call_dragMove (clientX e - drag_x s) (clientY e - drag_y s) e],
            world := snd ?r, console := console s @ [(''dragMove error'', err)],
            drag_x := clientX e, drag_y := clientY e\<rparr>)" (is "_ = Returns ?t") .
  have obj1: "drag_object ?t = Some obj" and thr1: "drag_threshold ?t = 0"
    using assms(1) by simp_all
  from run_dragging[OF obj1 thr1, of ms] obtain s2 where
    r2: "run (map Mousemove ms) ?t = Returns s2" and o2: "drag_object s2 = Some obj"
    and t2: "drag_threshold s2 = 0"
    by (elim exE conjE)
  from run_dragging_console[OF obj1 thr1 tm, of ms] r2
  have c2: "console s2 = console s @ replicate (Suc (length ms)) (''dragMove error'', err)"
    by simp
  have "dragEnd obj (world s2) = (Some err, snd (dragEnd obj (world s2)))"
    using te by (metis prod.collapse)
  from mouseup_throws[OF o2 t2 this]
  have up: "mouseup s2 = Returns (s2\<lparr>calls := calls s2 @ [Call_dragEnd],
      world := snd (dragEnd obj (world s2)),
      console := console s2 @ [(''dragEnd error'', err)], drag_object := None\<rparr>)" .
  have "run (Mousemove e # map Mousemove ms @ [Mouseup]) s
      = Returns (s2\<lparr>calls := calls s2 @ [Call_dragEnd],
          world := snd (dragEnd obj (world s2)),
          console := console s2 @ [(''dragEnd error'', err)], drag_object := None\<rparr>)"
    using step r2 up by (simp add: run_append)
  then show ?thesis
    using c2 by simp
qed


lemma mouseup_pending:
  assumes "drag_object s = Some obj" and "drag_threshold s \<noteq> 0"
  shows "mouseup s = Returns (s\<lparr>drag_object := None\<rparr>)"
  using assms by (simp add: mouseup_def try_catch_def)

lemma start_fields:
  "drag_object (start obj e0 t s) = Some obj"
  "drag_threshold (start obj e0 (Some T) s) = T * T"
  "drag_x (start obj e0 t s) = clientX e0"
  "drag_y (start obj e0 t s) = clientY e0"
  "calls (start obj e0 t s) = calls s"
  "world (start obj e0 t s) = world s"
  "console (start obj e0 t s) = console s"
  by (simp_all add: start_def Let_def)



text \<open>
  Claim C3, as the code has it. In a drag started with a threshold \<open>T \<noteq> 0\<close> in which no
  pointer move reached the threshold, the release does not invoke \<open>dragEnd\<close>: the log of
  calls and the page are what they were. The release clears the target, as it does in
  every state \<open>s'\<close>.
\<close>

theorem release_before_threshold:
  assumes "T \<noteq> 0" and "\<forall>e\<in>set es. dist2 e0 e < T * T"
  shows "run (map Mousemove es @ [Mouseup]) (start obj e0 (Some T) s)
           = Returns ((start obj e0 (Some T) s)\<lparr>drag_object := None\<rparr>) \<and>
         calls ((start obj e0 (Some T) s)\<lparr>drag_object := None\<rparr>) = calls s \<and>
         world ((start obj e0 (Some T) s)\<lparr>drag_object := None\<rparr>) = world s \<and>
         drag_object (state_of (mouseup s')) = None"
proof -
  let ?s0 = "start obj e0 (Some T) s"
  have obj0: "drag_object ?s0 = Some obj" and thr0: "drag_threshold ?s0 \<noteq> 0"
    using assms(1) by (simp_all add: start_fields)
  have below: "\<forall>e\<in>set es. dist2 (pt (drag_x ?s0) (drag_y ?s0)) e < drag_threshold ?s0"
    using assms(2) by (simp add: start_fields pt_start)
  have "run (map Mousemove es) ?s0 = Returns ?s0"
    by (rule run_pending[OF obj0 thr0 below])
  moreover have "mouseup ?s0 = Returns (?s0\<lparr>drag_object := None\<rparr>)"
    by (rule mouseup_pending[OF obj0 thr0])
  ultimately have "run (map Mousemove es @ [Mouseup]) ?s0 = Returns (?s0\<lparr>drag_object := None\<rparr>)"
    by (simp add: run_append)
  then show ?thesis
    by (simp add: start_fields mouseup_clears)
qed

theorem release_before_threshold_witness:
  "(10::int) \<noteq> 0 \<and> dist2 (pt 0 0) (pt 3 4) < 10 * 10 \<and>
   run (map Mousemove [pt 3 4] @ [Mouseup]) (start counting_target (pt 0 0) (Some 10) (idle 0))
     = Returns ((start counting_target (pt 0 0) (Some 10) (idle 0))\<lparr>drag_object := None\<rparr>) \<and>
   calls ((start counting_target (pt 0 0) (Some 10) (idle 0))\<lparr>drag_object := None\<rparr>)
     = calls (idle (0::nat)) \<and>
   world ((start counting_target (pt 0 0) (Some 10) (idle 0))\<lparr>drag_object := None\<rparr>)
     = world (idle (0::nat)) \<and>
   drag_object (state_of (mouseup (start broken_target (pt 0 0) None (idle 0)))) = None"
proof -
  have h1: "(10::int) \<noteq> 0" by simp
  have h2: "\<forall>e\<in>set [pt 3 4]. dist2 (pt 0 0) e < 10 * 10"
    by (simp add: dist2_def pt_def)
  have h2': "dist2 (pt 0 0) (pt 3 4) < 10 * 10"
    using h2 by simp
  from h1 h2' release_before_threshold[OF h1 h2, of counting_target "idle 0"
      "start broken_target (pt 0 0) None (idle 0)"]
  show ?thesis by (intro conjI) blast+
qed

text \<open>
  Claim C3 as stated fails: after a drag started with threshold 10, a move to \<open>(3, 4)\<close> and
  the release, no call was made on the target and the page counter is still 0.
\<close>

theorem release_before_threshold_counterexample:
  "is_Returns (run [Mousemove (pt 3 4), Mouseup] (start counting_target (pt 0 0) (Some 10) (idle 0))) \<and>
   calls (state_of (run [Mousemove (pt 3 4), Mouseup]
                      (start counting_target (pt 0 0) (Some 10) (idle 0)))) = [] \<and>
   world (state_of (run [Mousemove (pt 3 4), Mouseup]
                      (start counting_target (pt 0 0) (Some 10) (idle 0)))) = 0"
  by (simp add: pt_def start_def idle_def mousemove_def mouseup_def try_catch_def Let_def)

text \<open>
  Claim C6, as the code has it. With an active target, a move that is below a pending
  threshold leaves the state as it is, last recorded point included; every other move
  returns with the last recorded point set to the pointer position.
\<close>

theorem mousemove_last_point:
  assumes "drag_object s = Some obj"
  shows "(drag_threshold s \<noteq> 0 \<and> dist2 (pt (drag_x s) (drag_y s)) e < drag_threshold s
            \<longrightarrow> mousemove e s = Returns s) \<and>
         (\<not> (drag_threshold s \<noteq> 0 \<and> dist2 (pt (drag_x s) (drag_y s)) e < drag_threshold s)
            \<longrightarrow> is_Returns (mousemove e s) \<and>
                drag_x (state_of (mousemove e s)) = clientX e \<and>
                drag_y (state_of (mousemove e s)) = clientY e)"
proof (intro conjI impI)
  assume "drag_threshold s \<noteq> 0 \<and> dist2 (pt (drag_x s) (drag_y s)) e < drag_threshold s"
  then show "mousemove e s = Returns s"
    using assms by (intro mousemove_pending[of s obj]) (simp_all add: dist2_def pt_def)
next
  assume a: "\<not> (drag_threshold s \<noteq> 0 \<and> dist2 (pt (drag_x s) (drag_y s)) e < drag_threshold s)"
  from mousemove_dispatch[OF assms a] obtain t where t: "mousemove e s = Returns t"
    and "drag_x t = clientX e" and "drag_y t = clientY e"
    by force
  then show "is_Returns (mousemove e s)" and "drag_x (state_of (mousemove e s)) = clientX e"
    and "drag_y (state_of (mousemove e s)) = clientY e"
    by simp_all
qed

theorem mousemove_last_point_witness:
  "drag_object (start counting_target (pt 0 0) (Some 10) (idle 0)) = Some counting_target \<and>
   (drag_threshold (start counting_target (pt 0 0) (Some 10) (idle 0)) \<noteq> 0 \<and>
    dist2 (pt 0 0) (pt 3 4) < drag_threshold (start counting_target (pt 0 0) (Some 10) (idle 0))) \<and>
   mousemove (pt 3 4) (start counting_target (pt 0 0) (Some 10) (idle 0))
     = Returns (start counting_target (pt 0 0) (Some 10) (idle 0)) \<and>
   \<not> (drag_threshold (start counting_target (pt 0 0) (Some 10) (idle 0)) \<noteq> 0 \<and>
      dist2 (pt 0 0) (pt 20 0) < drag_threshold (start counting_target (pt 0 0) (Some 10) (idle 0))) \<and>
   is_Returns (mousemove (pt 20 0) (start counting_target (pt 0 0) (Some 10) (idle 0))) \<and>
   drag_x (state_of (mousemove (pt 20 0) (start counting_target (pt 0 0) (Some 10) (idle 0)))) = 20 \<and>
   drag_y (state_of (mousemove (pt 20 0) (start counting_target (pt 0 0) (Some 10) (idle 0)))) = 0"
proof -
  let ?s0 = "start counting_target (pt 0 0) (Some 10) (idle (0::nat))"
  have h: "drag_object ?s0 = Some counting_target"
    by (simp add: start_fields)
  have x0: "drag_x ?s0 = 0" and y0: "drag_y ?s0 = 0" and t0: "drag_threshold ?s0 = 100"
    by (simp_all add: start_fields pt_def)
  have a: "drag_threshold ?s0 \<noteq> 0 \<and> dist2 (pt 0 0) (pt 3 4) < drag_threshold ?s0"
    unfolding t0 by (simp add: dist2_def pt_def)
  have b: "\<not> (drag_threshold ?s0 \<noteq> 0 \<and> dist2 (pt 0 0) (pt 20 0) < drag_threshold ?s0)"
    unfolding t0 by (simp add: dist2_def pt_def)
  from mousemove_last_point[OF h, of "pt 3 4"] a
  have c: "mousemove (pt 3 4) ?s0 = Returns ?s0"
    by (simp add: x0 y0)
  from mousemove_last_point[OF h, of "pt 20 0"] b
  have d: "is_Returns (mousemove (pt 20 0) ?s0) \<and>
           drag_x (state_of (mousemove (pt 20 0) ?s0)) = clientX (pt 20 0) \<and>
           drag_y (state_of (mousemove (pt 20 0) ?s0)) = clientY (pt 20 0)"
    by (simp add: x0 y0)
  have e: "clientX (pt 20 0) = 20" "clientY (pt 20 0) = 0"
    by (simp_all add: pt_def)
  from h a b c d show ?thesis
    unfolding e by (intro conjI) blast+
qed

text \<open>
  Claim C6 as stated fails: in a drag started at \<open>(0, 0)\<close> with threshold 10, after a move
  to \<open>(3, 4)\<close> the last recorded point is not \<open>(3, 4)\<close>.
\<close>

theorem mousemove_last_point_counterexample:
  "drag_threshold (start counting_target (pt 0 0) (Some 10) (idle 0)) \<noteq> 0 \<and>
   drag_x (state_of (mousemove (pt 3 4) (start counting_target (pt 0 0) (Some 10) (idle 0))))
     \<noteq> clientX (pt 3 4) \<and>
   drag_y (state_of (mousemove (pt 3 4) (start counting_target (pt 0 0) (Some 10) (idle 0))))
     \<noteq> clientY (pt 3 4)"
  by (simp add: pt_def start_def idle_def mousemove_def Let_def)

text \<open>
  Claim C9. With an active target \<open>obj\<close>, whatever its methods do, the \<^verbatim>\<open>mousemove\<close> and the
  \<^verbatim>\<open>mouseup\<close> listener return, and so does every run of pointer events; the release clears
  the target. When \<open>dragMove\<close> throws at a dispatched move, the listener logs the error
  and leaves the state that a returning call leaves, console apart: threshold cleared,
  target kept, last recorded point updated. When \<open>dragEnd\<close> throws, the listener logs the
  error and clears the target. Later events are handled as ever: after a dispatched move
  \<open>e\<close>, thrown or not, every move of \<open>ms\<close> is dispatched with its difference to the move
  before, and the release calls \<open>dragEnd\<close> once and clears the target. For a target whose
  methods throw at every call, each of these calls is logged, in order.
\<close>

theorem callbacks_never_propagate:
  assumes "drag_object s = Some obj"
  shows "is_Returns (mousemove e s) \<and> is_Returns (mouseup s) \<and> is_Returns (run evs s) \<and>
         drag_object (state_of (mouseup s)) = None \<and>
         (\<not> (drag_threshold s \<noteq> 0 \<and> dist2 (pt (drag_x s) (drag_y s)) e < drag_threshold s) \<and>
          dragMove obj (clientX e - drag_x s) (clientY e - drag_y s) e (world s) = (Some err, w')
            \<longrightarrow> mousemove e s = Returns (s\<lparr>drag_threshold := 0,
                  calls := calls s @ [Call_dragMove (clientX e - drag_x s) (clientY e - drag_y s) e],
                  world := w', console := console s @ [(''dragMove error'', err)],
                  drag_x := clientX e, drag_y := clientY e\<rparr>)) \<and>
         (drag_threshold s = 0 \<and> dragEnd obj (world s) = (Some err, w')
            \<longrightarrow> mouseup s = Returns (s\<lparr>calls := calls s @ [Call_dragEnd], world := w',
                  console := console s @ [(''dragEnd error'', err)], drag_object := None\<rparr>)) \<and>
         (\<not> (drag_threshold s \<noteq> 0 \<and> dist2 (pt (drag_x s) (drag_y s)) e < drag_threshold s)
            \<longrightarrow> (\<exists>s'. run (Mousemove e # map Mousemove ms @ [Mouseup]) s = Returns s' \<and>
                  calls s' = calls s @ moves_calls (pt (drag_x s) (drag_y s)) (e # ms) @ [Call_dragEnd] \<and>
                  drag_object s' = None \<and> drag_threshold s' = 0 \<and>
                  pt (drag_x s') (drag_y s') = last (e # ms))) \<and>
         (\<not> (drag_threshold s \<noteq> 0 \<and> dist2 (pt (drag_x s) (drag_y s)) e < drag_threshold s) \<and>
          (\<forall>dx dy e w. fst (dragMove obj dx dy e w) = Some err) \<and>
          (\<forall>w. fst (dragEnd obj w) = Some err)
            \<longrightarrow> console (state_of (run (Mousemove e # map Mousemove ms @ [Mouseup]) s))
                  = console s @ replicate (Suc (length ms)) (''dragMove error'', err)
                      @ [(''dragEnd error'', err)])"
proof (intro conjI impI)
  show "is_Returns (mousemove e s)" by (rule mousemove_returns)
  show "is_Returns (mouseup s)" by (rule mouseup_returns)
  show "is_Returns (run evs s)" by (rule run_returns)
  show "drag_object (state_of (mouseup s)) = None" by (rule mouseup_clears)
next
  assume "\<not> (drag_threshold s \<noteq> 0 \<and> dist2 (pt (drag_x s) (drag_y s)) e < drag_threshold s) \<and>
    dragMove obj (clientX e - drag_x s) (clientY e - drag_y s) e (world s) = (Some err, w')"
  then show "mousemove e s = Returns (s\<lparr>drag_threshold := 0,
      calls := calls s @ [Call_dragMove (clientX e - drag_x s) (clientY e - drag_y s) e],
      world := w', console := console s @ [(''dragMove error'', err)],
      drag_x := clientX e, drag_y := clientY e\<rparr>)"
    using mousemove_throws[OF assms, of e err w'] by blast
next
  assume "drag_threshold s = 0 \<and> dragEnd obj (world s) = (Some err, w')"
  then show "mouseup s = Returns (s\<lparr>calls := calls s @ [Call_dragEnd], world := w',
      console := console s @ [(''dragEnd error'', err)], drag_object := None\<rparr>)"
    using mouseup_throws[OF assms, of err w'] by blast
next
  assume "\<not> (drag_threshold s \<noteq> 0 \<and> dist2 (pt (drag_x s) (drag_y s)) e < drag_threshold s)"
  then show "\<exists>s'. run (Mousemove e # map Mousemove ms @ [Mouseup]) s = Returns s' \<and>
      calls s' = calls s @ moves_calls (pt (drag_x s) (drag_y s)) (e # ms) @ [Call_dragEnd] \<and>
      drag_object s' = None \<and> drag_threshold s' = 0 \<and>
      pt (drag_x s') (drag_y s') = last (e # ms)"
    by (rule dragged_session[OF assms])
next
  assume a: "\<not> (drag_threshold s \<noteq> 0 \<and> dist2 (pt (drag_x s) (drag_y s)) e < drag_threshold s) \<and>
    (\<forall>dx dy e w. fst (dragMove obj dx dy e w) = Some err) \<and>
    (\<forall>w. fst (dragEnd obj w) = Some err)"
  then have np: "\<not> (drag_threshold s \<noteq> 0 \<and> dist2 (pt (drag_x s) (drag_y s)) e < drag_threshold s)"
    and tm: "\<forall>dx dy e w. fst (dragMove obj dx dy e w) = Some err"
    and te: "\<forall>w. fst (dragEnd obj w) = Some err"
    by simp_all
  show "console (state_of (run (Mousemove e # map Mousemove ms @ [Mouseup]) s))
      = console s @ replicate (Suc (length ms)) (''dragMove error'', err) @ [(''dragEnd error'', err)]"
    by (rule session_console[OF assms np tm te])
qed

theorem callbacks_never_propagate_witness:
  "drag_object (start broken_target (pt 0 0) None (idle 0)) = Some broken_target \<and>
   is_Returns (mousemove (pt 7 1) (start broken_target (pt 0 0) None (idle 0))) \<and>
   is_Returns (mouseup (start broken_target (pt 0 0) None (idle 0))) \<and>
   is_Returns (run [Mousemove (pt 7 1), Mousemove (pt 9 9), Mouseup, Mousemove (pt 0 0)]
                 (start broken_target (pt 0 0) None (idle 0))) \<and>
   drag_object (state_of (mouseup (start broken_target (pt 0 0) None (idle 0)))) = None \<and>
   mousemove (pt 7 1) (start broken_target (pt 0 0) None (idle 0))
     = Returns \<lparr>drag_object = Some broken_target, drag_x = 7, drag_y = 1, drag_threshold = 0,
                world = 0, calls = [Call_dragMove 7 1 (pt 7 1)],
                console = [(''dragMove error'', ''TypeError'')]\<rparr> \<and>
   mouseup (start broken_target (pt 0 0) None (idle 0))
     = Returns \<lparr>drag_object = None, drag_x = 0, drag_y = 0, drag_threshold = 0,
                world = 0, calls = [Call_dragEnd],
                console = [(''dragEnd error'', ''TypeError'')]\<rparr> \<and>
   (\<exists>s'. run (Mousemove (pt 7 1) # map Mousemove [pt 9 9] @ [Mouseup])
            (start broken_target (pt 0 0) None (idle 0)) = Returns s' \<and>
      calls s' = [Call_dragMove 7 1 (pt 7 1), Call_dragMove 2 8 (pt 9 9), Call_dragEnd] \<and>
      drag_object s' = None) \<and>
   console (state_of (run (Mousemove (pt 7 1) # map Mousemove [pt 9 9] @ [Mouseup])
                        (start broken_target (pt 0 0) None (idle 0))))
     = [(''dragMove error'', ''TypeError''), (''dragMove error'', ''TypeError''),
        (''dragEnd error'', ''TypeError'')]"
proof -
  let ?s0 = "start broken_target (pt 0 0) None (idle (0::nat))"
  have s0: "?s0 = \<lparr>drag_object = Some broken_target, drag_x = 0, drag_y = 0, drag_threshold = 0,
      world = 0, calls = [], console = []\<rparr>"
    by (simp add: start_def idle_def pt_def)
  have h: "drag_object ?s0 = Some broken_target"
    by (simp add: start_fields)
  have f: "drag_threshold ?s0 = 0" "drag_x ?s0 = 0" "drag_y ?s0 = 0" "console ?s0 = []"
    "world ?s0 = 0" "calls ?s0 = []"
    by (simp_all add: s0)
  have np: "\<not> (drag_threshold ?s0 \<noteq> 0 \<and> dist2 (pt (drag_x ?s0) (drag_y ?s0)) (pt 7 1) < drag_threshold ?s0)"
    by (simp add: f)
  have tm: "dragMove broken_target dx dy e w = (Some ''TypeError'', w)"
    and te: "dragEnd broken_target w = (Some ''TypeError'', w)" for dx dy e w
    by (simp_all add: broken_target_def)
  have tf: "\<forall>dx dy e w. fst (dragMove broken_target dx dy e w) = Some ''TypeError''"
    "\<forall>w. fst (dragEnd broken_target w) = Some ''TypeError''"
    by (simp_all add: tm te)
  note th = callbacks_never_propagate[OF h, of "pt 7 1"
      "[Mousemove (pt 7 1), Mousemove (pt 9 9), Mouseup, Mousemove (pt 0 0)]" "''TypeError''" 0
      "[pt 9 9]"]
  from th have r: "is_Returns (mousemove (pt 7 1) ?s0)" "is_Returns (mouseup ?s0)"
    "is_Returns (run [Mousemove (pt 7 1), Mousemove (pt 9 9), Mouseup, Mousemove (pt 0 0)] ?s0)"
    "drag_object (state_of (mouseup ?s0)) = None"
    by blast+
  from th np tm[of "clientX (pt 7 1) - drag_x ?s0" "clientY (pt 7 1) - drag_y ?s0" "pt 7 1" "world ?s0"]
  have "mousemove (pt 7 1) ?s0 = Returns (?s0\<lparr>drag_threshold := 0,
      calls := calls ?s0 @ [Call_dragMove (clientX (pt 7 1) - drag_x ?s0) (clientY (pt 7 1) - drag_y ?s0) (pt 7 1)],
      world := 0, console := console ?s0 @ [(''dragMove error'', ''TypeError'')],
      drag_x := clientX (pt 7 1), drag_y := clientY (pt 7 1)\<rparr>)"
    unfolding f(5) by blast
  then have mv: "mousemove (pt 7 1) ?s0
     = Returns \<lparr>drag_object = Some broken_target, drag_x = 7, drag_y = 1, drag_threshold = 0,
                world = 0, calls = [Call_dragMove 7 1 (pt 7 1)],
                console = [(''dragMove error'', ''TypeError'')]\<rparr>"
    unfolding s0 by (simp add: pt_sel)
  from th f(1) te[of "world ?s0"]
  have "mouseup ?s0 = Returns (?s0\<lparr>calls := calls ?s0 @ [Call_dragEnd], world := 0,
      console := console ?s0 @ [(''dragEnd error'', ''TypeError'')], drag_object := None\<rparr>)"
    unfolding f(5) by blast
  then have up: "mouseup ?s0
     = Returns \<lparr>drag_object = None, drag_x = 0, drag_y = 0, drag_threshold = 0,
                world = 0, calls = [Call_dragEnd],
                console = [(''dragEnd error'', ''TypeError'')]\<rparr>"
    unfolding s0 by simp
  from th np obtain s' where
    rn: "run (Mousemove (pt 7 1) # map Mousemove [pt 9 9] @ [Mouseup]) ?s0 = Returns s'"
    and cs: "calls s' = calls ?s0 @ moves_calls (pt (drag_x ?s0) (drag_y ?s0)) (pt 7 1 # [pt 9 9])
               @ [Call_dragEnd]"
    and ob: "drag_object s' = None"
    by blast
  have cs': "calls s' = [Call_dragMove 7 1 (pt 7 1), Call_dragMove 2 8 (pt 9 9), Call_dragEnd]"
    using cs unfolding f by (simp add: pt_sel)
  from rn cs' ob have ex: "\<exists>s'. run (Mousemove (pt 7 1) # map Mousemove [pt 9 9] @ [Mouseup]) ?s0
        = Returns s' \<and>
      calls s' = [Call_dragMove 7 1 (pt 7 1), Call_dragMove 2 8 (pt 9 9), Call_dragEnd] \<and>
      drag_object s' = None"
    by (intro exI[of _ s'] conjI)
  from th np tf have "console (state_of (run (Mousemove (pt 7 1) # map Mousemove [pt 9 9] @ [Mouseup]) ?s0))
      = console ?s0 @ replicate (Suc (length [pt 9 9])) (''dragMove error'', ''TypeError'')
          @ [(''dragEnd error'', ''TypeError'')]"
    by blast
  then have co: "console (state_of (run (Mousemove (pt 7 1) # map Mousemove [pt 9 9] @ [Mouseup]) ?s0))
     = [(''dragMove error'', ''TypeError''), (''dragMove error'', ''TypeError''),
        (''dragEnd error'', ''TypeError'')]"
    unfolding f by simp
  from h r mv up ex co show ?thesis
    by (intro conjI)
qed

section \<open>Properties of WindowHost and Window\<close>


lemma heap_updatePosition [simp]: "heap (updatePosition w s) = heap s"
  by (simp add: updatePosition_def Let_def)

lemma host_rect_updatePosition [simp]: "host_rect (updatePosition w s) = host_rect s"
  by (simp add: updatePosition_def Let_def)

lemma reposition_heap:
  "heap (reposition w s) w =
     (if w_maximized (heap s w) then
        (heap s w)\<lparr>w_x := 0, w_y := 0, w_width := r_width (host_rect s),
                   w_height := r_height (host_rect s)\<rparr>
      else
        (heap s w)\<lparr>w_y := (if w_y (heap s w) < 0 then 0
                            else if w_y (heap s w) + 30 > r_height (host_rect s)
                                 then r_height (host_rect s) - 30
                            else w_y (heap s w)),
                   w_x := (if w_x (heap s w) + w_width (heap s w) < 50
                           then 50 - w_width (heap s w)
                           else if w_x (heap s w) + 30 > r_width (host_rect s)
                                then r_width (host_rect s) - 30
                           else w_x (heap s w))\<rparr>)"
  by (simp add: reposition_def Let_def)

lemma reposition_other: "u \<noteq> w \<Longrightarrow> heap (reposition w s) u = heap s u"
  by (simp add: reposition_def Let_def)

lemma host_rect_reposition [simp]: "host_rect (reposition w s) = host_rect s"
  by (simp add: reposition_def Let_def)

text \<open>
  Claim C5, as the code has it. After \<^verbatim>\<open>reposition()\<close>, a maximized window is at
  \<open>(0, 0)\<close> with the size of the host root. For a window that is not maximized, width and
  height are unchanged, \<open>y\<close> is at least \<open>min 0 (H - 30)\<close> and \<open>x\<close> is at least
  \<open>min (50 - width) (W - 30)\<close>, for a host root of width \<open>W\<close> and height \<open>H\<close>; so \<open>y\<close> is
  non-negative when the host root is at least 30 high, and \<open>x\<close> may be negative.
\<close>

theorem reposition_bounds:
  "(w_maximized (heap s w) \<longrightarrow>
      geometry_of (reposition w s) w =
        \<lparr>g_x = 0, g_y = 0, g_width = r_width (host_rect s), g_height = r_height (host_rect s)\<rparr>) \<and>
   (\<not> w_maximized (heap s w) \<longrightarrow>
      w_width (heap (reposition w s) w) = w_width (heap s w) \<and>
      w_height (heap (reposition w s) w) = w_height (heap s w) \<and>
      min 0 (r_height (host_rect s) - 30) \<le> w_y (heap (reposition w s) w) \<and>
      min (50 - w_width (heap s w)) (r_width (host_rect s) - 30) \<le> w_x (heap (reposition w s) w) \<and>
      (30 \<le> r_height (host_rect s) \<longrightarrow> 0 \<le> w_y (heap (reposition w s) w)))"
  by (simp add: reposition_heap geometry_of_def)

lemma double_maximize_heap:
  assumes "\<not> w_maximized (heap s w)"
  shows "heap (maximize w (maximize w s)) w =
           (heap (reposition w s) w)\<lparr>w_oldPosition := Some (geometry_of s w)\<rparr>"
  using assms
  by (simp add: maximize_def Let_def set_cls_maximized_def reposition_def updatePosition_def geometry_of_def)


text \<open>
  Claim C4, as the code has it. For a window that is not maximized, \<^verbatim>\<open>maximize()\<close> twice
  gives the geometry that \<^verbatim>\<open>reposition()\<close> gives on the geometry before: width and height
  are restored exactly, and \<open>x\<close> and \<open>y\<close> are restored exactly when the geometry before was
  within the bounds of \<^verbatim>\<open>reposition()\<close>.
\<close>

theorem maximize_twice:
  assumes "\<not> w_maximized (heap s w)"
  shows "geometry_of (maximize w (maximize w s)) w = geometry_of (reposition w s) w \<and>
         w_width (heap (maximize w (maximize w s)) w) = w_width (heap s w) \<and>
         w_height (heap (maximize w (maximize w s)) w) = w_height (heap s w) \<and>
         \<not> w_maximized (heap (maximize w (maximize w s)) w) \<and>
         (0 \<le> w_y (heap s w) \<and> w_y (heap s w) + 30 \<le> r_height (host_rect s) \<and>
          50 \<le> w_x (heap s w) + w_width (heap s w) \<and> w_x (heap s w) + 30 \<le> r_width (host_rect s)
            \<longrightarrow> geometry_of (maximize w (maximize w s)) w = geometry_of s w)"
  using assms
  by (simp add: double_maximize_heap geometry_of_def reposition_heap)

lemma two_windows_fields:
  "heap two_windows 0 =
     \<lparr>w_root = 0, w_resizeX = 0, w_resizeY = 0, w_resizeCursor = [], w_resizing = False,
      w_maximized = False, w_oldPosition = None,
      w_x = 10, w_y = 500, w_width = 300, w_height = 200\<rparr>"
  "heap two_windows (Suc 0) =
     \<lparr>w_root = 1, w_resizeX = 0, w_resizeY = 0, w_resizeCursor = [], w_resizing = False,
      w_maximized = False, w_oldPosition = None,
      w_x = 40, w_y = 60, w_width = 320, w_height = 240\<rparr>"
  "host_rect two_windows = \<lparr>r_left = 0, r_top = 0, r_width = 800, r_height = 400\<rparr>"
  "windows two_windows = [0, 1]"
  "activeWindow two_windows = Some 1"
  "maxZIndex two_windows = 1002"
  "next_ref two_windows = 2"
  by (simp_all add: two_windows_def page0_def el0_def el1_def WindowHost_def creates_def
      Window_new_def Window_fields_def init_def updatePosition_def Window_focus_def focus_def
      setActive_def Let_def)

lemma two_windows_dom:
  "dom two_windows 0 = el0\<lparr>csWindow := Some 0, cls_active := False, style_zIndex := Some 1001,
     style_box := Some \<lparr>g_x = 10, g_y = 500, g_width = 300, g_height = 200\<rparr>\<rparr>"
  "dom two_windows (Suc 0) = el1\<lparr>csWindow := Some 1, cls_active := True, style_zIndex := Some 1002,
     style_box := Some \<lparr>g_x = 40, g_y = 60, g_width = 320, g_height = 240\<rparr>\<rparr>"
  by (simp_all add: two_windows_def page0_def el0_def el1_def WindowHost_def creates_def
      Window_new_def Window_fields_def init_def updatePosition_def Window_focus_def focus_def
      setActive_def Let_def)

text \<open>
  Claim C4 as stated fails for a window created below the lower bound: window 0 of the
  example page is measured at \<open>y = 500\<close> in a host root of height 400 (\<^verbatim>\<open>create\<close> does not
  reposition a new window); after \<^verbatim>\<open>maximize()\<close> twice it is at \<open>y = 370\<close>.
\<close>

theorem maximize_twice_counterexample:
  "\<not> w_maximized (heap two_windows 0) \<and>
   geometry_of two_windows 0 = \<lparr>g_x = 10, g_y = 500, g_width = 300, g_height = 200\<rparr> \<and>
   geometry_of (maximize 0 (maximize 0 two_windows)) 0
     = \<lparr>g_x = 10, g_y = 370, g_width = 300, g_height = 200\<rparr>"
  by (simp add: double_maximize_heap geometry_of_def reposition_heap two_windows_fields)


theorem maximize_twice_witness:
  "\<not> w_maximized (heap two_windows 1) \<and>
   0 \<le> w_y (heap two_windows 1) \<and> w_y (heap two_windows 1) + 30 \<le> r_height (host_rect two_windows) \<and>
   50 \<le> w_x (heap two_windows 1) + w_width (heap two_windows 1) \<and>
   w_x (heap two_windows 1) + 30 \<le> r_width (host_rect two_windows) \<and>
   geometry_of (maximize 1 (maximize 1 two_windows)) 1 = geometry_of two_windows 1 \<and>
   geometry_of two_windows 1 = \<lparr>g_x = 40, g_y = 60, g_width = 320, g_height = 240\<rparr> \<and>
   geometry_of (maximize 1 two_windows) 1 = \<lparr>g_x = 0, g_y = 0, g_width = 800, g_height = 400\<rparr>"
proof -
  have h: "\<not> w_maximized (heap two_windows 1)"
    by (simp add: two_windows_fields)
  have st: "0 \<le> w_y (heap two_windows 1) \<and>
      w_y (heap two_windows 1) + 30 \<le> r_height (host_rect two_windows) \<and>
      50 \<le> w_x (heap two_windows 1) + w_width (heap two_windows 1) \<and>
      w_x (heap two_windows 1) + 30 \<le> r_width (host_rect two_windows)"
    by (simp add: two_windows_fields)
  from maximize_twice[OF h] st
  have rt: "geometry_of (maximize 1 (maximize 1 two_windows)) 1 = geometry_of two_windows 1"
    by blast
  have g: "geometry_of two_windows 1 = \<lparr>g_x = 40, g_y = 60, g_width = 320, g_height = 240\<rparr>"
    by (simp add: geometry_of_def two_windows_fields)
  have m: "geometry_of (maximize 1 two_windows) 1
             = \<lparr>g_x = 0, g_y = 0, g_width = 800, g_height = 400\<rparr>"
    by (simp add: geometry_of_def maximize_def set_cls_maximized_def reposition_heap Let_def
        two_windows_fields)
  from h st rt g m show ?thesis by blast
qed

theorem reposition_bounds_witness:
  "\<not> w_maximized (heap two_windows 0) \<and> 30 \<le> r_height (host_rect two_windows) \<and>
   w_width (heap (reposition 0 two_windows) 0) = 300 \<and>
   w_height (heap (reposition 0 two_windows) 0) = 200 \<and>
   0 \<le> w_y (heap (reposition 0 two_windows) 0) \<and>
   min (50 - 300) (800 - 30) \<le> w_x (heap (reposition 0 two_windows) 0) \<and>
   w_maximized (heap (maximize 1 two_windows) 1) \<and>
   geometry_of (reposition 1 (maximize 1 two_windows)) 1
     = \<lparr>g_x = 0, g_y = 0, g_width = 800, g_height = 400\<rparr>"
proof -
  have h: "\<not> w_maximized (heap two_windows 0)" "30 \<le> r_height (host_rect two_windows)"
    by (simp_all add: two_windows_fields)
  have f: "w_width (heap two_windows 0) = 300" "w_height (heap two_windows 0) = 200"
    "r_width (host_rect two_windows) = 800"
    by (simp_all add: two_windows_fields)
  have m: "w_maximized (heap (maximize 1 two_windows) 1)"
    "host_rect (maximize 1 two_windows) = \<lparr>r_left = 0, r_top = 0, r_width = 800, r_height = 400\<rparr>"
    by (simp_all add: maximize_def set_cls_maximized_def reposition_def updatePosition_def Let_def
        two_windows_fields)
  from reposition_bounds[of two_windows 0] h
  have a: "w_width (heap (reposition 0 two_windows) 0) = 300 \<and>
      w_height (heap (reposition 0 two_windows) 0) = 200 \<and>
      0 \<le> w_y (heap (reposition 0 two_windows) 0) \<and>
      min (50 - 300) (800 - 30) \<le> w_x (heap (reposition 0 two_windows) 0)"
    unfolding f by blast
  from reposition_bounds[of "maximize 1 two_windows" 1] m
  have b: "geometry_of (reposition 1 (maximize 1 two_windows)) 1
     = \<lparr>g_x = 0, g_y = 0, g_width = 800, g_height = 400\<rparr>"
    by simp
  from h a m(1) b show ?thesis by blast
qed

text \<open>
  Claim C5 as stated fails: a window of width 320 at \<open>x = -400\<close> is put at \<open>x = -270\<close>, and
  in a host root of height 20 a window at \<open>y = 60\<close> is put at \<open>y = -10\<close>.
\<close>

theorem reposition_bounds_counterexample:
  "geometry_of moved_left 1 = \<lparr>g_x = - 400, g_y = 60, g_width = 320, g_height = 240\<rparr> \<and>
   w_x (heap (reposition 1 moved_left) 1) = - 270 \<and>
   geometry_of low_host 1 = \<lparr>g_x = 40, g_y = 60, g_width = 320, g_height = 240\<rparr> \<and>
   w_y (heap (reposition 1 low_host) 1) = - 10"
  by (simp add: reposition_heap geometry_of_def moved_left_def low_host_def two_windows_fields)


lemma focus_fields [simp]:
  "heap (focus a s) = heap s"
  "windows (focus a s) = windows s"
  "activeWindow (focus a s) = a"
  "host_rect (focus a s) = host_rect s"
  "next_ref (focus a s) = next_ref s"
  "maxZIndex (focus a s) = (case a of None \<Rightarrow> maxZIndex s | Some w \<Rightarrow> maxZIndex s + 1)"
  by (simp_all add: focus_def setActive_def Let_def split: option.splits)

lemma focus_csWindow [simp]: "csWindow (dom (focus a s) e) = csWindow (dom s e)"
  by (simp add: focus_def setActive_def Let_def split: option.splits)

lemma focus_cls_active:
  "cls_active (dom (focus a s) r) =
     (case a of
        Some w \<Rightarrow> r = w_root (heap s w) \<or>
          (case activeWindow s of
             None \<Rightarrow> cls_active (dom s r)
           | Some old \<Rightarrow> (old = w \<or> r \<noteq> w_root (heap s old)) \<and> cls_active (dom s r))
      | None \<Rightarrow>
          (case activeWindow s of
             None \<Rightarrow> cls_active (dom s r)
           | Some old \<Rightarrow> r \<noteq> w_root (heap s old) \<and> cls_active (dom s r)))"
  by (auto simp: focus_def setActive_def Let_def split: option.splits)

lemma focus_zIndex: "zIndex (focus (Some w) s) w = Some (maxZIndex s + 1)"
  by (simp add: focus_def setActive_def zIndex_def Let_def split: option.splits)

lemma filter_single:
  assumes "distinct xs" and "x \<in> set xs" and "\<forall>u\<in>set xs. P u \<longleftrightarrow> u = x"
  shows "filter P xs = [x]"
  using assms
proof (induction xs)
  case Nil
  then show ?case by simp
next
  case (Cons y ys)
  show ?case
  proof (cases "y = x")
    case True
    with Cons.prems have "\<forall>u\<in>set ys. \<not> P u" by auto
    then have "filter P ys = []" by (simp add: filter_empty_conv)
    with True Cons.prems show ?thesis by simp
  next
    case False
    with Cons show ?thesis by auto
  qed
qed

lemma host_ok_iff:
  "host_ok s \<longleftrightarrow>
     distinct (windows s) \<and> inj_on (\<lambda>w. w_root (heap s w)) (set (windows s)) \<and>
     (\<forall>a. activeWindow s = Some a \<longrightarrow> a \<in> set (windows s)) \<and>
     (\<forall>u\<in>set (windows s). is_active s u \<longleftrightarrow> activeWindow s = Some u)"
proof (cases "activeWindow s")
  case None
  then show ?thesis
    by (auto simp: host_ok_def active_windows_def distinct_map filter_empty_conv)
next
  case (Some a)
  show ?thesis
  proof
    assume ok: "host_ok s"
    then have "filter (is_active s) (windows s) = [a]"
      using Some by (simp add: host_ok_def active_windows_def)
    then have "set (filter (is_active s) (windows s)) = {a}" by simp
    then have "\<forall>u\<in>set (windows s). is_active s u \<longleftrightarrow> u = a" by auto
    with ok Some show "distinct (windows s) \<and> inj_on (\<lambda>w. w_root (heap s w)) (set (windows s)) \<and>
     (\<forall>a. activeWindow s = Some a \<longrightarrow> a \<in> set (windows s)) \<and>
     (\<forall>u\<in>set (windows s). is_active s u \<longleftrightarrow> activeWindow s = Some u)"
      by (auto simp: host_ok_def distinct_map)
  next
    assume r: "distinct (windows s) \<and> inj_on (\<lambda>w. w_root (heap s w)) (set (windows s)) \<and>
     (\<forall>a. activeWindow s = Some a \<longrightarrow> a \<in> set (windows s)) \<and>
     (\<forall>u\<in>set (windows s). is_active s u \<longleftrightarrow> activeWindow s = Some u)"
    with Some have "filter (is_active s) (windows s) = [a]"
      by (intro filter_single) auto
    with r Some show "host_ok s"
      by (simp add: host_ok_def active_windows_def distinct_map)
  qed
qed

lemma focus_ok:
  assumes "host_ok s" and "focus_arg_ok s a"
  shows "host_ok (focus a s)"
proof -
  from assms(1) have d: "distinct (windows s)"
    and inj: "inj_on (\<lambda>w. w_root (heap s w)) (set (windows s))"
    and act: "\<And>b. activeWindow s = Some b \<Longrightarrow> b \<in> set (windows s)"
    and iff: "\<And>u. u \<in> set (windows s) \<Longrightarrow> is_active s u \<longleftrightarrow> activeWindow s = Some u"
    by (simp_all add: host_ok_iff)
  have root_eq: "w_root (heap s u) = w_root (heap s v) \<longleftrightarrow> u = v"
    if "u \<in> set (windows s)" "v \<in> set (windows s)" for u v
    using inj that by (auto dest: inj_onD)
  have "is_active (focus a s) u \<longleftrightarrow> a = Some u" if u: "u \<in> set (windows s)" for u
  proof (cases a)
    case None
    show ?thesis
    proof (cases "activeWindow s")
      case n: None
      with None iff[OF u] show ?thesis
        by (simp add: is_active_def focus_cls_active)
    next
      case (Some old)
      with None iff[OF u] act[OF Some] root_eq[OF u, of old] show ?thesis
        by (auto simp: is_active_def focus_cls_active)
    qed
  next
    case (Some w)
    with assms(2) have w: "w \<in> set (windows s)"
      by (simp add: focus_arg_ok_def)
    show ?thesis
    proof (cases "activeWindow s")
      case None
      with Some iff[OF u] root_eq[OF u w] show ?thesis
        by (auto simp: is_active_def focus_cls_active)
    next
      case old: (Some old)
      with Some iff[OF u] act[OF old] root_eq[OF u w] root_eq[OF u, of old] show ?thesis
        by (auto simp: is_active_def focus_cls_active)
    qed
  qed
  with d inj assms(2) show ?thesis
    by (auto simp: host_ok_iff focus_arg_ok_def split: option.splits)
qed


lemma focus_arg_ok_focus [simp]: "focus_arg_ok (focus a s) = focus_arg_ok s"
  by (simp add: focus_arg_ok_def fun_eq_iff split: option.splits)

lemma focus_all_ok:
  assumes "host_ok s" and "list_all (focus_arg_ok s) as"
  shows "host_ok (focus_all as s)"
  using assms by (induction as arbitrary: s) (simp_all add: focus_ok)

lemma focus_all_activeWindow:
  "as \<noteq> [] \<Longrightarrow> activeWindow (focus_all as s) = last as"
  by (induction as arbitrary: s) auto

lemma last_focused_last:
  "as \<noteq> [] \<Longrightarrow> last as = Some w \<Longrightarrow> last_focused as = Some w"
  by (induction as) (auto split: option.splits if_splits)

lemma host_ok_active:
  "host_ok s \<Longrightarrow> active_windows s = (case activeWindow s of None \<Rightarrow> [] | Some a \<Rightarrow> [a])"
  by (simp add: host_ok_def)

text \<open>
  Claim C1. On a host whose windows are in order (\<open>host_ok\<close>), after any non-empty
  sequence of \<^verbatim>\<open>focus\<close> calls, each on \<^verbatim>\<open>null\<close> or on a window of the host: at most one
  window is active; the active windows are exactly the last argument when it is a window,
  and none when it is \<^verbatim>\<open>null\<close>; an active window is the most recent argument that is not
  \<^verbatim>\<open>null\<close>; and a single \<^verbatim>\<open>focus(w)\<close> deactivates every other window that was active. The
  host is in order again afterwards, so the same holds after each call of the sequence.
\<close>

theorem focus_single_active:
  assumes "host_ok s" and "list_all (focus_arg_ok s) as" and "as \<noteq> []"
  shows "length (active_windows (focus_all as s)) \<le> 1 \<and>
         active_windows (focus_all as s) = (case last as of None \<Rightarrow> [] | Some w \<Rightarrow> [w]) \<and>
         activeWindow (focus_all as s) = last as \<and>
         (\<forall>w. w \<in> set (active_windows (focus_all as s)) \<longrightarrow> last_focused as = Some w) \<and>
         (\<forall>a w. a \<in> set (windows s) \<and> w \<in> set (windows s) \<and> a \<noteq> w \<and> is_active s a
            \<longrightarrow> \<not> is_active (focus (Some w) s) a \<and> is_active (focus (Some w) s) w) \<and>
         host_ok (focus_all as s)"
proof -
  have ok: "host_ok (focus_all as s)"
    by (rule focus_all_ok[OF assms(1,2)])
  have aw: "activeWindow (focus_all as s) = last as"
    by (rule focus_all_activeWindow[OF assms(3)])
  from host_ok_active[OF ok] aw
  have act: "active_windows (focus_all as s) = (case last as of None \<Rightarrow> [] | Some w \<Rightarrow> [w])"
    by simp
  then have len: "length (active_windows (focus_all as s)) \<le> 1"
    by (simp split: option.splits)
  have lf: "\<forall>w. w \<in> set (active_windows (focus_all as s)) \<longrightarrow> last_focused as = Some w"
    using act assms(3) by (auto split: option.splits intro: last_focused_last)
  have step: "\<not> is_active (focus (Some w) s) a \<and> is_active (focus (Some w) s) w"
    if "a \<in> set (windows s)" "w \<in> set (windows s)" "a \<noteq> w" for a w
  proof -
    from that(2) have "host_ok (focus (Some w) s)"
      by (intro focus_ok[OF assms(1)]) (simp add: focus_arg_ok_def)
    then have "\<forall>u\<in>set (windows s). is_active (focus (Some w) s) u \<longleftrightarrow> Some w = Some u"
      by (simp add: host_ok_iff)
    with that show ?thesis by auto
  qed
  from len act aw lf step ok show ?thesis by blast
qed

lemma host_ok_two_windows: "host_ok two_windows"
  by (simp add: host_ok_def active_windows_def is_active_def two_windows_fields two_windows_dom
      el0_def el1_def)

theorem focus_single_active_witness:
  "host_ok two_windows \<and>
   focus_arg_ok two_windows (Some 0) \<and> focus_arg_ok two_windows None \<and>
   focus_arg_ok two_windows (Some 1) \<and>
   [Some 0, None, Some 1, Some 0] \<noteq> [] \<and>
   length (active_windows (focus_all [Some 0, None, Some 1, Some 0] two_windows)) \<le> 1 \<and>
   active_windows (focus_all [Some 0, None, Some 1, Some 0] two_windows) = [0] \<and>
   activeWindow (focus_all [Some 0, None, Some 1, Some 0] two_windows) = Some 0 \<and>
   last_focused [Some 0, None, Some 1, Some 0] = Some 0 \<and>
   is_active two_windows 1 \<and> \<not> is_active (focus (Some 0) two_windows) 1 \<and>
   is_active (focus (Some 0) two_windows) 0 \<and>
   host_ok (focus_all [Some 0, None, Some 1, Some 0] two_windows)"
proof -
  have h1: "host_ok two_windows" by (rule host_ok_two_windows)
  have a: "focus_arg_ok two_windows (Some 0)" "focus_arg_ok two_windows None"
    "focus_arg_ok two_windows (Some 1)"
    by (simp_all add: focus_arg_ok_def two_windows_fields)
  then have h2: "list_all (focus_arg_ok two_windows) [Some 0, None, Some 1, Some 0]"
    by simp
  have h3: "[Some 0, None, Some 1, Some (0::nat)] \<noteq> []" by simp
  have act: "is_active two_windows 1" "(0::nat) \<in> set (windows two_windows)"
    "(1::nat) \<in> set (windows two_windows)"
    by (simp_all add: is_active_def two_windows_fields two_windows_dom)
  have lf: "last_focused [Some 0, None, Some 1, Some (0::nat)] = Some 0" by simp
  note th = focus_single_active[OF h1 h2 h3]
  have fa: "focus_all [Some 0, None, Some 1, Some 0] two_windows
      = focus (Some 0) (focus (Some 1) (focus None (focus (Some 0) two_windows)))"
    by simp
  from th have c1: "length (active_windows (focus_all [Some 0, None, Some 1, Some 0] two_windows)) \<le> 1"
    by blast
  from th have c2: "active_windows (focus_all [Some 0, None, Some 1, Some 0] two_windows) = [0]"
    by simp
  from th have c3: "activeWindow (focus_all [Some 0, None, Some 1, Some 0] two_windows) = Some 0"
    by simp
  from th have "\<forall>a w. a \<in> set (windows two_windows) \<and> w \<in> set (windows two_windows) \<and>
      a \<noteq> w \<and> is_active two_windows a
      \<longrightarrow> \<not> is_active (focus (Some w) two_windows) a \<and> is_active (focus (Some w) two_windows) w"
    by blast
  with act have c4: "\<not> is_active (focus (Some 0) two_windows) 1 \<and>
      is_active (focus (Some 0) two_windows) 0"
    by (metis zero_neq_one)
  from th have c5: "host_ok (focus_all [Some 0, None, Some 1, Some 0] two_windows)"
    by blast
  note c = c1 c2 c3 c4 c5
  from h1 a h3 c lf act(1) show ?thesis by blast
qed


lemma reposition_fields [simp]:
  "windows (reposition w s) = windows s"
  "csWindow (dom (reposition w s) e) = csWindow (dom s e)"
  by (simp_all add: reposition_def updatePosition_def Let_def)

lemma create_existing:
  assumes "csWindow (dom s el) = Some w"
  shows "created (Some el) s = Some w"
    and "windows (creates (Some el) s) = windows s"
    and "csWindow (dom (creates (Some el) s) e) = csWindow (dom s e)"
  using assms by (simp_all add: created_def creates_def Window_focus_def)

lemma create_fresh:
  assumes "csWindow (dom s el) = None"
  shows "created (Some el) s = Some (next_ref s)"
    and "windows (creates (Some el) s) = windows s @ [next_ref s]"
    and "csWindow (dom (creates (Some el) s) el) = Some (next_ref s)"
  using assms
  by (simp_all add: created_def creates_def Window_focus_def Window_new_def init_def
      updatePosition_def Window_fields_def Let_def)

lemma create_times_existing:
  assumes "csWindow (dom s el) = Some w"
  shows "windows (create_times n (Some el) s) = windows s \<and>
         csWindow (dom (create_times n (Some el) s) el) = Some w"
  using assms
proof (induction n arbitrary: s)
  case 0
  then show ?case by simp
next
  case (Suc n)
  have "csWindow (dom (creates (Some el) s) el) = Some w"
    using Suc.prems by (simp add: create_existing)
  from Suc.IH[OF this] show ?case
    using Suc.prems by (simp add: create_existing)
qed

lemma create_wraps: "\<exists>w. csWindow (dom (creates (Some el) s) el) = Some w \<and> created (Some el) s = Some w"
proof (cases "csWindow (dom s el)")
  case None
  then show ?thesis by (simp add: create_fresh)
next
  case (Some w)
  then show ?thesis by (simp add: create_existing)
qed

text \<open>
  Claim C7. A second \<^verbatim>\<open>create\<close> on the same element returns the \<^verbatim>\<open>Window\<close> that the first
  call returned, and so does every later call. When the element had no \<^verbatim>\<open>Window\<close> before
  the first call, the first call returns a new object, and after any number \<open>n + 1\<close> of
  calls the host's list of windows is the old list with that one object appended: it has
  grown by exactly 1. On an element that has a \<^verbatim>\<open>Window\<close> already the list does not grow.
\<close>

theorem create_idempotent:
  "created (Some el) (creates (Some el) s) = created (Some el) s \<and>
   created (Some el) s \<noteq> None \<and>
   created (Some el) (create_times n (Some el) (creates (Some el) s)) = created (Some el) s \<and>
   (csWindow (dom s el) = None \<longrightarrow>
      created (Some el) s = Some (next_ref s) \<and>
      windows (create_times (Suc n) (Some el) s) = windows s @ [next_ref s] \<and>
      length (windows (create_times (Suc n) (Some el) s)) = length (windows s) + 1) \<and>
   (csWindow (dom s el) \<noteq> None \<longrightarrow>
      windows (create_times n (Some el) s) = windows s)"
proof -
  from create_wraps[of el s] obtain w where
    w: "csWindow (dom (creates (Some el) s) el) = Some w" and r: "created (Some el) s = Some w"
    by blast
  have a: "created (Some el) (creates (Some el) s) = created (Some el) s"
    using w r by (simp add: create_existing)
  have b: "created (Some el) s \<noteq> None"
    using r by simp
  have c: "created (Some el) (create_times n (Some el) (creates (Some el) s)) = created (Some el) s"
    using create_times_existing[OF w, of n] r by (simp add: create_existing)
  have d: "created (Some el) s = Some (next_ref s) \<and>
      windows (create_times (Suc n) (Some el) s) = windows s @ [next_ref s] \<and>
      length (windows (create_times (Suc n) (Some el) s)) = length (windows s) + 1"
    if "csWindow (dom s el) = None"
    using create_times_existing[OF w, of n] that by (simp add: create_fresh)
  have e: "windows (create_times n (Some el) s) = windows s" if "csWindow (dom s el) \<noteq> None"
    using that create_times_existing[of s el _ n] by auto
  from a b c d e show ?thesis by blast
qed

lemma page0_fields:
  "csWindow (dom page0 0) = None" "windows page0 = []" "next_ref page0 = 0"
  by (simp_all add: page0_def WindowHost_def el0_def)

theorem create_idempotent_witness:
  "csWindow (dom page0 0) = None \<and>
   created (Some 0) page0 = Some 0 \<and>
   created (Some 0) (creates (Some 0) page0) = Some 0 \<and>
   created (Some 0) (create_times 4 (Some 0) (creates (Some 0) page0)) = Some 0 \<and>
   windows (create_times 5 (Some 0) page0) = [0] \<and>
   length (windows (create_times 5 (Some 0) page0)) = length (windows page0) + 1 \<and>
   csWindow (dom two_windows 1) \<noteq> None \<and>
   windows (create_times 3 (Some 1) two_windows) = windows two_windows"
proof -
  have h: "csWindow (dom page0 0) = None" by (rule page0_fields)
  have h2: "csWindow (dom two_windows 1) \<noteq> None"
    by (simp add: two_windows_dom)
  have n: "(5::nat) = Suc 4" by simp
  from create_idempotent[of 0 page0 4] h
  have a: "created (Some 0) page0 = Some 0"
    "created (Some 0) (creates (Some 0) page0) = Some 0"
    "created (Some 0) (create_times 4 (Some 0) (creates (Some 0) page0)) = Some 0"
    "windows (create_times 5 (Some 0) page0) = [0]"
    "length (windows (create_times 5 (Some 0) page0)) = length (windows page0) + 1"
    unfolding n by (simp_all add: page0_fields)
  from create_idempotent[of 1 two_windows 3] h2
  have b: "windows (create_times 3 (Some 1) two_windows) = windows two_windows"
    by blast
  from h a h2 b show ?thesis by blast
qed

lemma bringToFront_maxZIndex:
  "maxZIndex (bringToFront a s) = (case a of None \<Rightarrow> maxZIndex s | Some w \<Rightarrow> maxZIndex s + 1)"
  by (cases a) (simp_all add: Let_def)

lemma bringToFront_zIndex: "zIndex (bringToFront (Some w) s) w = Some (maxZIndex s + 1)"
  by (simp add: zIndex_def Let_def)

lemma stacking_values_sorted:
  "sorted_wrt (<) (maxZIndex s # stacking_values as s) \<and>
   maxZIndex (bringToFront_all as s) = last (maxZIndex s # stacking_values as s)"
proof (induction as arbitrary: s)
  case Nil
  show ?case by simp
next
  case (Cons a as)
  show ?case
  proof (cases a)
    case None
    with Cons.IH[of s] show ?thesis by simp
  next
    case (Some w)
    let ?s' = "bringToFront (Some w) s"
    have m: "maxZIndex ?s' = maxZIndex s + 1"
      by (simp add: bringToFront_maxZIndex del: bringToFront.simps)
    have sv: "stacking_values (a # as) s = (maxZIndex s + 1) # stacking_values as ?s'"
      using Some bringToFront_zIndex[of w s] by (simp add: Let_def del: bringToFront.simps)
    from Cons.IH[of ?s'] have
      srt: "sorted_wrt (<) ((maxZIndex s + 1) # stacking_values as ?s')"
      and lst: "maxZIndex (bringToFront_all as ?s') = last ((maxZIndex s + 1) # stacking_values as ?s')"
      unfolding m by simp_all
    from srt have "sorted_wrt (<) (maxZIndex s # (maxZIndex s + 1) # stacking_values as ?s')"
      by auto
    with lst Some sv show ?thesis
      by (simp del: bringToFront.simps)
  qed
qed

lemma creates_maxZIndex:
  "maxZIndex (creates el s) = (case el of None \<Rightarrow> maxZIndex s | Some e \<Rightarrow> maxZIndex s + 1)"
  by (simp add: creates_def Window_focus_def Window_new_def init_def updatePosition_def
      reposition_def Let_def split: option.splits)

lemma maximize_maxZIndex: "maxZIndex (maximize w s) = maxZIndex s"
  by (simp add: maximize_def set_cls_maximized_def reposition_def updatePosition_def Let_def
      split: option.splits)

lemma reposition_maxZIndex: "maxZIndex (reposition w s) = maxZIndex s"
  by (simp add: reposition_def updatePosition_def Let_def)

text \<open>
  Claim C8. No operation of the host lowers the counter \<^verbatim>\<open>maxZIndex\<close>. \<^verbatim>\<open>bringToFront\<close> on
  a window hands out the counter plus 1, and the next such call the counter plus 2. Over
  any sequence of \<^verbatim>\<open>bringToFront\<close> calls the values handed out are strictly increasing,
  start above the counter, are pairwise distinct, and the counter ends at the last one.
\<close>

theorem bringToFront_monotonic:
  "maxZIndex s \<le> maxZIndex (bringToFront a s) \<and>
   maxZIndex s \<le> maxZIndex (focus a s) \<and>
   maxZIndex s \<le> maxZIndex (creates el s) \<and>
   maxZIndex (reposition w s) = maxZIndex s \<and>
   maxZIndex (maximize w s) = maxZIndex s \<and>
   maxZIndex s \<le> maxZIndex (bringToFront_all as s) \<and>
   zIndex (bringToFront (Some w1) s) w1 = Some (maxZIndex s + 1) \<and>
   zIndex (bringToFront (Some w2) (bringToFront (Some w1) s)) w2 = Some (maxZIndex s + 2) \<and>
   sorted_wrt (<) (maxZIndex s # stacking_values as s) \<and>
   distinct (stacking_values as s) \<and>
   maxZIndex (bringToFront_all as s) = last (maxZIndex s # stacking_values as s)"
proof -
  note sv = stacking_values_sorted[of s as]
  have a: "maxZIndex s \<le> maxZIndex (bringToFront a s)"
    by (simp add: bringToFront_maxZIndex split: option.splits)
  from sv have srt: "sorted_wrt (<) (maxZIndex s # stacking_values as s)" by blast
  then have "\<forall>v\<in>set (stacking_values as s). maxZIndex s < v" by simp
  then have "maxZIndex s \<le> last (maxZIndex s # stacking_values as s)"
    by (cases "stacking_values as s = []") (auto simp: less_imp_le)
  with sv have b: "maxZIndex s \<le> maxZIndex (bringToFront_all as s)" by simp
  have c: "zIndex (bringToFront (Some w1) s) w1 = Some (maxZIndex s + 1)"
    by (rule bringToFront_zIndex)
  have d: "zIndex (bringToFront (Some w2) (bringToFront (Some w1) s)) w2 = Some (maxZIndex s + 2)"
    using bringToFront_zIndex[of w2 "bringToFront (Some w1) s"]
    by (simp add: bringToFront_maxZIndex del: bringToFront.simps)
  from srt have "sorted_wrt (<) (stacking_values as s)" by simp
  then have e: "distinct (stacking_values as s)"
    by (simp add: strict_sorted_iff)
  have f: "maxZIndex s \<le> maxZIndex (focus a s)" "maxZIndex s \<le> maxZIndex (creates el s)"
    by (simp_all add: creates_maxZIndex split: option.splits)
  note g = reposition_maxZIndex[of w s] maximize_maxZIndex[of w s]
  from a b c d srt e sv f g show ?thesis by blast
qed

theorem bringToFront_monotonic_witness:
  "maxZIndex two_windows = 1002 \<and>
   stacking_values [Some 0, None, Some 1, Some 0] two_windows = [1003, 1004, 1005] \<and>
   sorted_wrt (<) (maxZIndex two_windows # stacking_values [Some 0, None, Some 1, Some 0] two_windows) \<and>
   distinct (stacking_values [Some 0, None, Some 1, Some 0] two_windows) \<and>
   maxZIndex (bringToFront_all [Some 0, None, Some 1, Some 0] two_windows) = 1005 \<and>
   zIndex (bringToFront (Some 0) two_windows) 0 = Some 1003 \<and>
   zIndex (bringToFront (Some 1) (bringToFront (Some 0) two_windows)) 1 = Some 1004"
proof -
  have m: "maxZIndex two_windows = 1002"
    by (simp add: two_windows_fields)
  have v: "stacking_values [Some 0, None, Some 1, Some 0] two_windows = [1003, 1004, 1005]"
    by (simp add: zIndex_def Let_def two_windows_fields)
  note th = bringToFront_monotonic[where s = two_windows and a = None and el = None and w = 0
      and as = "[Some 0, None, Some 1, Some 0]" and ?w1.0 = 0 and ?w2.0 = 1]
  from th have a: "sorted_wrt (<)
      (maxZIndex two_windows # stacking_values [Some 0, None, Some 1, Some 0] two_windows)"
    by blast
  from th have b: "distinct (stacking_values [Some 0, None, Some 1, Some 0] two_windows)"
    by blast
  from th have "maxZIndex (bringToFront_all [Some 0, None, Some 1, Some 0] two_windows)
      = last (maxZIndex two_windows # stacking_values [Some 0, None, Some 1, Some 0] two_windows)"
    by blast
  then have c: "maxZIndex (bringToFront_all [Some 0, None, Some 1, Some 0] two_windows) = 1005"
    unfolding v m by simp
  from th have "zIndex (bringToFront (Some 0) two_windows) 0 = Some (maxZIndex two_windows + 1)"
    "zIndex (bringToFront (Some 1) (bringToFront (Some 0) two_windows)) 1
      = Some (maxZIndex two_windows + 2)"
    by blast+
  then have d: "zIndex (bringToFront (Some 0) two_windows) 0 = Some 1003"
    and e: "zIndex (bringToFront (Some 1) (bringToFront (Some 0) two_windows)) 1 = Some 1004"
    unfolding m by simp_all
  from m v a b c d e show ?thesis by blast
qed

lemma focus_all_snoc: "focus_all (as @ [a]) s = focus a (focus_all as s)"
  by (induction as arbitrary: s) simp_all

lemma focus_all_replicate_maxZIndex:
  "maxZIndex (focus_all (replicate n (Some w)) s) = maxZIndex s + int n"
  by (induction n arbitrary: s) simp_all

lemma focus_is_active: "is_active (focus (Some w) s) w"
  by (simp add: is_active_def focus_cls_active)

text \<open>
  Claim C10. \<^verbatim>\<open>focus(w)\<close> on the window that is active already runs \<^verbatim>\<open>setActive(true)\<close> and
  \<^verbatim>\<open>bringToFront\<close> only (\<^verbatim>\<open>setActive(false)\<close> is not called): the window stays active,
  the counter grows by 1 and the window gets the new value, so the page has changed. The
  same at every repetition: after \<open>n + 1\<close> calls the counter and the window's stacking value
  are the old counter plus \<open>n + 1\<close>.
\<close>

theorem refocus_active:
  assumes "activeWindow s = Some w"
  shows "focus (Some w) s = bringToFront (Some w) (setActive w True s) \<and>
         is_active (focus (Some w) s) w \<and>
         activeWindow (focus (Some w) s) = Some w \<and>
         maxZIndex (focus (Some w) s) = maxZIndex s + 1 \<and>
         zIndex (focus (Some w) s) w = Some (maxZIndex s + 1) \<and>
         focus (Some w) s \<noteq> s \<and>
         is_active (focus_all (replicate (Suc n) (Some w)) s) w \<and>
         maxZIndex (focus_all (replicate (Suc n) (Some w)) s) = maxZIndex s + 1 + int n \<and>
         zIndex (focus_all (replicate (Suc n) (Some w)) s) w = Some (maxZIndex s + 1 + int n)"
proof -
  have same: "s\<lparr>activeWindow := Some w\<rparr> = s"
    using assms by simp
  have a: "focus (Some w) s = bringToFront (Some w) (setActive w True s)"
    using assms by (simp add: focus_def same del: bringToFront.simps)
  have m: "maxZIndex (focus (Some w) s) = maxZIndex s + 1"
    by simp
  then have ne: "focus (Some w) s \<noteq> s"
    by (metis add_cancel_left_right zero_neq_one)
  have "replicate (Suc n) (Some w) = replicate n (Some w) @ [Some w]"
    by (simp add: replicate_append_same)
  then have rep: "focus_all (replicate (Suc n) (Some w)) s
      = focus (Some w) (focus_all (replicate n (Some w)) s)"
    by (simp only: focus_all_snoc)
  have r1: "is_active (focus_all (replicate (Suc n) (Some w)) s) w"
    unfolding rep by (rule focus_is_active)
  have r2: "maxZIndex (focus_all (replicate (Suc n) (Some w)) s) = maxZIndex s + 1 + int n"
    using focus_all_replicate_maxZIndex[of "Suc n" w s] by simp
  have r3: "zIndex (focus_all (replicate (Suc n) (Some w)) s) w = Some (maxZIndex s + 1 + int n)"
    unfolding rep by (simp add: focus_zIndex focus_all_replicate_maxZIndex)
  have aw: "activeWindow (focus (Some w) s) = Some w"
    by simp
  from a focus_is_active[of w s] aw m focus_zIndex[of w s] ne r1 r2 r3 show ?thesis
    by blast
qed

theorem refocus_active_witness:
  "activeWindow two_windows = Some 1 \<and>
   zIndex two_windows 1 = Some 1002 \<and>
   is_active two_windows 1 \<and>
   focus (Some 1) two_windows = bringToFront (Some 1) (setActive 1 True two_windows) \<and>
   is_active (focus (Some 1) two_windows) 1 \<and>
   maxZIndex (focus (Some 1) two_windows) = 1003 \<and>
   zIndex (focus (Some 1) two_windows) 1 = Some 1003 \<and>
   focus (Some 1) two_windows \<noteq> two_windows \<and>
   maxZIndex (focus_all (replicate 3 (Some 1)) two_windows) = 1005 \<and>
   zIndex (focus_all (replicate 3 (Some 1)) two_windows) 1 = Some 1005"
proof -
  have h: "activeWindow two_windows = Some 1"
    by (simp add: two_windows_fields)
  have m: "maxZIndex two_windows = 1002"
    by (simp add: two_windows_fields)
  have z: "zIndex two_windows 1 = Some 1002" "is_active two_windows 1"
    by (simp_all add: zIndex_def is_active_def two_windows_fields two_windows_dom)
  have n: "(3::nat) = Suc 2" by simp
  note th = refocus_active[OF h, of 2]
  from th have a: "focus (Some 1) two_windows = bringToFront (Some 1) (setActive 1 True two_windows)"
    "is_active (focus (Some 1) two_windows) 1"
    "focus (Some 1) two_windows \<noteq> two_windows"
    by blast+
  from th have "maxZIndex (focus (Some 1) two_windows) = maxZIndex two_windows + 1"
    "zIndex (focus (Some 1) two_windows) 1 = Some (maxZIndex two_windows + 1)"
    by blast+
  then have b: "maxZIndex (focus (Some 1) two_windows) = 1003"
    "zIndex (focus (Some 1) two_windows) 1 = Some 1003"
    unfolding m by simp_all
  from th have "maxZIndex (focus_all (replicate (Suc 2) (Some 1)) two_windows)
      = maxZIndex two_windows + 1 + int 2"
    "zIndex (focus_all (replicate (Suc 2) (Some 1)) two_windows) 1
      = Some (maxZIndex two_windows + 1 + int 2)"
    by blast+
  then have c: "maxZIndex (focus_all (replicate 3 (Some 1)) two_windows) = 1005"
    "zIndex (focus_all (replicate 3 (Some 1)) two_windows) 1 = Some 1005"
    unfolding m n by simp_all
  from h z a b c show ?thesis by blast
qed


subsection \<open>The host stays in order\<close>

text \<open>
  The condition \<open>host_ok\<close> of claim C1 holds on every page that the constructor and the
  methods produce: on a page where no element has a back-reference yet, the constructor
  gives a page that is \<open>host_wf\<close>, and \<^verbatim>\<open>create\<close>, \<^verbatim>\<open>focus\<close>, \<^verbatim>\<open>reposition\<close> and
  \<^verbatim>\<open>maximize\<close> keep it so. This holds whatever classes the elements carry at the start.
\<close>

lemma host_wf_WindowHost:
  assumes "\<forall>e. csWindow (d e) = None"
  shows "host_wf (WindowHost d hr)"
  using assms by (simp add: host_wf_def host_ok_def WindowHost_def active_windows_def)

lemma focus_new_ok:
  assumes d: "distinct (windows s)"
    and inj: "inj_on (\<lambda>w. w_root (heap s w)) (set (windows s))"
    and act: "\<forall>b. activeWindow s = Some b \<longrightarrow> b \<in> set (windows s)"
    and w: "w \<in> set (windows s)"
    and iff: "\<forall>u\<in>set (windows s). u \<noteq> w \<longrightarrow> (is_active s u \<longleftrightarrow> activeWindow s = Some u)"
  shows "host_ok (focus (Some w) s)"
proof -
  have root_eq: "w_root (heap s u) = w_root (heap s v) \<longleftrightarrow> u = v"
    if "u \<in> set (windows s)" "v \<in> set (windows s)" for u v
    using inj that by (auto dest: inj_onD)
  have "is_active (focus (Some w) s) u \<longleftrightarrow> u = w" if u: "u \<in> set (windows s)" for u
  proof (cases "u = w")
    case True
    then show ?thesis by (simp add: is_active_def focus_cls_active)
  next
    case False
    show ?thesis
    proof (cases "activeWindow s")
      case None
      with False iff u root_eq[OF u w] show ?thesis
        by (auto simp: is_active_def focus_cls_active)
    next
      case (Some old)
      with act have "old \<in> set (windows s)" by simp
      with Some False iff u root_eq[OF u w] root_eq[OF u, of old] show ?thesis
        by (auto simp: is_active_def focus_cls_active)
    qed
  qed
  with d inj w show ?thesis
    by (auto simp: host_ok_iff)
qed

lemma reposition_ok:
  assumes "host_ok s"
  shows "host_ok (reposition w s)"
proof -
  have r: "w_root (heap (reposition w s) u) = w_root (heap s u)" for u
    by (simp add: reposition_def updatePosition_def Let_def)
  have a: "cls_active (dom (reposition w s) e) = cls_active (dom s e)" for e
    by (simp add: reposition_def updatePosition_def Let_def)
  have f: "activeWindow (reposition w s) = activeWindow s" "windows (reposition w s) = windows s"
    by (simp_all add: reposition_def updatePosition_def Let_def)
  have ia: "is_active (reposition w s) = is_active s"
    by (simp add: fun_eq_iff is_active_def r a)
  from assms show ?thesis
    by (simp add: host_ok_def active_windows_def ia r f split: option.splits)
qed

lemma maximize_ok:
  assumes "host_ok s"
  shows "host_ok (maximize w s)"
proof -
  have r: "w_root (heap (maximize w s) u) = w_root (heap s u)" for u
    by (simp add: maximize_def set_cls_maximized_def reposition_def updatePosition_def Let_def
        split: option.splits)
  have a: "cls_active (dom (maximize w s) e) = cls_active (dom s e)" for e
    by (simp add: maximize_def set_cls_maximized_def reposition_def updatePosition_def Let_def
        split: option.splits)
  have f: "activeWindow (maximize w s) = activeWindow s" "windows (maximize w s) = windows s"
    by (simp_all add: maximize_def set_cls_maximized_def reposition_def updatePosition_def Let_def
        split: option.splits)
  have ia: "is_active (maximize w s) = is_active s"
    by (simp add: fun_eq_iff is_active_def r a)
  from assms show ?thesis
    by (simp add: host_ok_def active_windows_def ia r f split: option.splits)
qed

lemma creates_wf:
  assumes "host_wf s"
  shows "host_wf (creates el s)"
proof (cases el)
  case None
  with assms show ?thesis by (simp add: creates_def)
next
  case (Some e)
  from assms have ok: "host_ok s"
    and fresh: "\<And>u. u \<in> set (windows s) \<Longrightarrow> u < next_ref s"
    and backref: "\<And>u. u \<in> set (windows s) \<Longrightarrow> csWindow (dom s (w_root (heap s u))) = Some u"
    and own: "\<And>e w. csWindow (dom s e) = Some w \<Longrightarrow> w \<in> set (windows s)"
    by (auto simp: host_wf_def)
  show ?thesis
  proof (cases "csWindow (dom s e)")
    case (Some w)
    then have cr: "creates el s = focus (Some w) (reposition w s)"
      using \<open>el = Some e\<close> by (simp add: creates_def Window_focus_def)
    have w: "w \<in> set (windows s)" by (rule own[OF Some])
    have "host_ok (focus (Some w) (reposition w s))"
      using w by (intro focus_ok reposition_ok ok) (simp add: focus_arg_ok_def)
    moreover have "w_root (heap (reposition w s) u) = w_root (heap s u)" for u
      by (simp add: reposition_def updatePosition_def Let_def)
    moreover have "next_ref (reposition w s) = next_ref s"
      by (simp add: reposition_def updatePosition_def Let_def)
    ultimately show ?thesis
      using fresh backref own by (simp add: host_wf_def cr)
  next
    case None
    let ?w = "next_ref s"
    let ?s1 = "snd (Window_new e s)"
    let ?s2 = "?s1\<lparr>windows := windows s @ [?w]\<rparr>"
    have cr: "creates el s = focus (Some ?w) ?s2"
      using \<open>el = Some e\<close> None
      by (simp add: creates_def Window_focus_def Window_new_def Let_def init_def updatePosition_def)
    have hp: "heap ?s1 = (heap s)(?w := (heap ?s1 ?w))" "w_root (heap ?s1 ?w) = e"
      by (simp_all add: Window_new_def init_def updatePosition_def Window_fields_def Let_def)
    have h2: "heap ?s1 u = heap s u" if "u \<in> set (windows s)" for u
      using fresh[OF that] by (subst hp) simp
    have cs: "csWindow (dom ?s1 x) = (if x = e then Some ?w else csWindow (dom s x))" for x
      by (simp add: Window_new_def init_def updatePosition_def Window_fields_def Let_def)
    have ca: "cls_active (dom ?s1 x) = cls_active (dom s x)" for x
      by (simp add: Window_new_def init_def updatePosition_def Window_fields_def Let_def)
    have fl: "activeWindow ?s1 = activeWindow s" "next_ref ?s1 = Suc ?w"
      by (simp_all add: Window_new_def init_def updatePosition_def Let_def)
    have nw: "?w \<notin> set (windows s)"
      using fresh by auto
    have ne: "w_root (heap s u) \<noteq> e" if "u \<in> set (windows s)" for u
      using backref[OF that] None by auto
    from ok have d: "distinct (windows s)"
      and inj: "inj_on (\<lambda>w. w_root (heap s w)) (set (windows s))"
      and act: "\<And>b. activeWindow s = Some b \<Longrightarrow> b \<in> set (windows s)"
      and iff: "\<And>u. u \<in> set (windows s) \<Longrightarrow> is_active s u \<longleftrightarrow> activeWindow s = Some u"
      by (simp_all add: host_ok_iff)
    have "host_ok (focus (Some ?w) ?s2)"
    proof (rule focus_new_ok)
      show "distinct (windows ?s2)" using d nw by simp
      show "inj_on (\<lambda>w. w_root (heap ?s2 w)) (set (windows ?s2))"
      proof (rule inj_onI)
        fix u v
        assume "u \<in> set (windows ?s2)" and "v \<in> set (windows ?s2)"
          and "w_root (heap ?s2 u) = w_root (heap ?s2 v)"
        then have u: "u \<in> set (windows s @ [?w])" and v: "v \<in> set (windows s @ [?w])"
          and eq: "w_root (heap ?s1 u) = w_root (heap ?s1 v)"
          by simp_all
        show "u = v"
        proof (cases "u = ?w")
          case True
          show ?thesis
          proof (cases "v = ?w")
            case True
            with \<open>u = ?w\<close> show ?thesis by simp
          next
            case False
            with v have "v \<in> set (windows s)" by simp
            with eq True hp(2) h2[of v] ne[of v] show ?thesis by simp
          qed
        next
          case False
          with u have us: "u \<in> set (windows s)" by simp
          show ?thesis
          proof (cases "v = ?w")
            case True
            with eq hp(2) h2[OF us] ne[OF us] show ?thesis by simp
          next
            case False
            with v have vs: "v \<in> set (windows s)" by simp
            from eq h2[OF us] h2[OF vs] have "w_root (heap s u) = w_root (heap s v)" by simp
            with inj us vs show ?thesis by (auto dest: inj_onD)
          qed
        qed
      qed
      show "\<forall>b. activeWindow ?s2 = Some b \<longrightarrow> b \<in> set (windows ?s2)"
        using act by (auto simp: fl)
      show "?w \<in> set (windows ?s2)" by (simp add: fl)
      show "\<forall>u\<in>set (windows ?s2). u \<noteq> ?w \<longrightarrow> (is_active ?s2 u \<longleftrightarrow> activeWindow ?s2 = Some u)"
      proof (intro ballI impI)
        fix u assume "u \<in> set (windows ?s2)" and "u \<noteq> ?w"
        then have us: "u \<in> set (windows s)" by (simp add: fl)
        have "is_active ?s2 u = is_active s u"
          by (simp add: is_active_def h2[OF us] ca)
        with iff[OF us] show "is_active ?s2 u \<longleftrightarrow> activeWindow ?s2 = Some u"
          by (simp add: fl)
      qed
    qed
    moreover have "u < next_ref (focus (Some ?w) ?s2) \<and>
        csWindow (dom (focus (Some ?w) ?s2) (w_root (heap (focus (Some ?w) ?s2) u))) = Some u"
      if "u \<in> set (windows (focus (Some ?w) ?s2))" for u
    proof (cases "u = ?w")
      case True
      then show ?thesis by (simp add: fl cs hp(2))
    next
      case False
      with that have us: "u \<in> set (windows s)" by (simp add: fl)
      with fresh[OF us] backref[OF us] ne[OF us] show ?thesis
        by (simp add: fl cs h2[OF us])
    qed
    moreover have "w \<in> set (windows (focus (Some ?w) ?s2))"
      if "csWindow (dom (focus (Some ?w) ?s2) x) = Some w" for x w
      using that own[of x w] by (auto simp: cs fl split: if_splits)
    ultimately show ?thesis
      unfolding cr host_wf_def by blast
  qed
qed

lemma host_wf_ok: "host_wf s \<Longrightarrow> host_ok s"
  by (simp add: host_wf_def)



lemma focus_wf:
  assumes "host_wf s" and "focus_arg_ok s a"
  shows "host_wf (focus a s)"
  using assms focus_ok[of s a] by (simp add: host_wf_def)

lemma reposition_wf:
  assumes "host_wf s"
  shows "host_wf (reposition w s)"
proof -
  have "w_root (heap (reposition w s) u) = w_root (heap s u)" for u
    by (simp add: reposition_def updatePosition_def Let_def)
  moreover have "next_ref (reposition w s) = next_ref s"
    by (simp add: reposition_def updatePosition_def Let_def)
  ultimately show ?thesis
    using assms reposition_ok[of s w] by (simp add: host_wf_def)
qed

lemma maximize_wf:
  assumes "host_wf s"
  shows "host_wf (maximize w s)"
proof -
  have "w_root (heap (maximize w s) u) = w_root (heap s u)" for u
    by (simp add: maximize_def set_cls_maximized_def reposition_def updatePosition_def Let_def
        split: option.splits)
  moreover have "next_ref (maximize w s) = next_ref s" "windows (maximize w s) = windows s"
    "csWindow (dom (maximize w s) e) = csWindow (dom s e)" for e
    by (simp_all add: maximize_def set_cls_maximized_def reposition_def updatePosition_def Let_def
        split: option.splits)
  ultimately show ?thesis
    using assms maximize_ok[of s w] by (simp add: host_wf_def)
qed

end
